theory Spec2Isabelle
  imports Complex_Main
begin

section \<open>Values read from the beat document\<close>

text \<open>
  The converters read a JSON document with \<^verbatim>\<open>json.load\<close> and convert the fields they
  use with \<^verbatim>\<open>float(...)\<close> and \<^verbatim>\<open>int(...)\<close>.  A field value is modelled as either a
  JSON number or a value on which both conversions raise (\<^verbatim>\<open>null\<close>, a list, an object,
  a non-numeric string).  Python floats are modelled as real numbers: rounding, NaN and
  the infinities are outside the model.  A key that is absent from a dictionary is
  \<open>None\<close> at the level of \<open>option\<close>.
\<close>

datatype jv = Num real | Bad

datatype py_exc = KeyError | TypeError | ValueError | IndexError | ZeroDivisionError

text \<open>\<^verbatim>\<open>float(v)\<close>: the number itself, or \<^verbatim>\<open>TypeError\<close>.\<close>

fun py_float :: "jv \<Rightarrow> py_exc + real" where
  "py_float (Num r) = Inr r"
| "py_float Bad = Inl TypeError"

text \<open>\<^verbatim>\<open>int(v)\<close>: truncation towards zero, or \<^verbatim>\<open>TypeError\<close>.\<close>

definition py_trunc :: "real \<Rightarrow> int" where
  "py_trunc r = (if 0 \<le> r then \<lfloor>r\<rfloor> else - \<lfloor>- r\<rfloor>)"

fun py_int :: "jv \<Rightarrow> py_exc + int" where
  "py_int (Num r) = Inr (py_trunc r)"
| "py_int Bad = Inl TypeError"

text \<open>\<^verbatim>\<open>d[key]\<close> raises \<^verbatim>\<open>KeyError\<close> on an absent key; \<^verbatim>\<open>d.get(key, default)\<close> does not.\<close>

fun py_item :: "jv option \<Rightarrow> py_exc + jv" where
  "py_item None = Inl KeyError"
| "py_item (Some v) = Inr v"

fun py_get :: "jv option \<Rightarrow> real \<Rightarrow> jv" where
  "py_get None d = Num d"
| "py_get (Some v) d = v"

text \<open>Sequencing of computations that may raise.\<close>

fun bind_exc :: "'e + 'a \<Rightarrow> ('a \<Rightarrow> 'e + 'b) \<Rightarrow> 'e + 'b" where
  "bind_exc (Inl e) f = Inl e"
| "bind_exc (Inr a) f = f a"

text \<open>A JSON value that the code expects to be a list.\<close>

datatype 'a jlist = NotList | JList "'a list"

text \<open>An element of \<^verbatim>\<open>tempo_map\<close>: a dictionary with the keys \<^verbatim>\<open>beat\<close> and \<^verbatim>\<open>bpm\<close>
  (each possibly absent), or something that is not a dictionary.\<close>

datatype tempo_event = TempoNotDict | TempoEvent (ev_beat: "jv option") (ev_bpm: "jv option")

text \<open>An element of \<^verbatim>\<open>notes\<close>.\<close>

record note_dict =
  pitch :: "jv option"
  start_beat :: "jv option"
  duration_beat :: "jv option"
  velocity :: "jv option"
  track :: "jv option"
  channel :: "jv option"

datatype raw_note = NoteNotDict | NoteDict note_dict

text \<open>The parsed document \<^verbatim>\<open>input_data\<close>.\<close>

datatype input_data =
  NotADict
| Dict (notes_key: "raw_note jlist option") (tempo_map_key: "tempo_event jlist option")
       (resolution_key: "jv option")

section \<open>Diagnostics\<close>

text \<open>Every \<^verbatim>\<open>print\<close> of the converters is one value of this type; a run collects
  them in the order printed.\<close>

datatype diag =
  WarnBeatTimeMapEmpty
| WarnActiveBpm real real
| ErrNotObject
| ErrNotesNotList
| ErrTempoMapEmpty
| WarnDefaultTempoAdded
| WarnInsertBeat0 real
| ErrTempoMapInvalid
| WarnTempoUnsorted nat real real
| WarnBpmNonPositive real real
| WarnPrevBpmInvalid
| WarnTempoEventSkipped nat
| WarnNegativeTrack int
| InfoInstrumentCreated int
| InfoDefaultInstrument
| WarnNoteNotDict nat
| WarnUnknownTrack int
| WarnDurationClamped nat
| SkipNoteKeyError nat
| SkipNoteValueError nat
| SkipNoteException nat
| WarnTrackRange int
| InfoInstrumentAdded int nat
| InfoInstrumentEmpty int
| InfoProcessed nat nat

section \<open>\<^verbatim>\<open>json_to_midi.py\<close>: beat to time\<close>

text \<open>
  The search loop of \<^verbatim>\<open>get_time_from_beat\<close> over a non-empty \<^verbatim>\<open>beat_time_map\<close>, given
  as its element at the current index and the elements after it.  It returns
  \<^verbatim>\<open>beat_time_map[map_idx]\<close>: the first element whose beat is at most the target while the
  next element's beat is above it, and the last element when no index matches
  (the \<^verbatim>\<open>else\<close> of the \<^verbatim>\<open>for\<close>).
\<close>

fun find_segment :: "real \<Rightarrow> real \<times> real \<Rightarrow> (real \<times> real) list \<Rightarrow> real \<times> real" where
  "find_segment target_beat p [] = p"
| "find_segment target_beat p (q # rest) =
     (if fst p \<le> target_beat \<and> target_beat < fst q then p
      else find_segment target_beat q rest)"

text \<open>The result is the time in seconds together with the warnings printed.\<close>

fun get_time_from_beat ::
  "real \<Rightarrow> (real \<times> real) list \<Rightarrow> (real \<rightharpoonup> real) \<Rightarrow> real \<times> diag list" where
  "get_time_from_beat target_beat [] tempo_map_dict =
     ((target_beat * 60) / 120, [WarnBeatTimeMapEmpty])"
| "get_time_from_beat target_beat (p # rest) tempo_map_dict =
     (let (seg_start_beat, seg_start_time) = find_segment target_beat p rest;
          active_bpm = (case tempo_map_dict seg_start_beat of None \<Rightarrow> 120 | Some b \<Rightarrow> b);
          beat_offset = target_beat - seg_start_beat
      in if active_bpm > 0
         then (seg_start_time + (beat_offset * 60) / active_bpm, [])
         else (seg_start_time + 0, [WarnActiveBpm active_bpm seg_start_beat]))"

section \<open>\<^verbatim>\<open>json_to_midi.py\<close>: the tempo map\<close>

text \<open>
  Lines 88 to 102: every element must be a dictionary, the list is sorted (stably) by
  \<^verbatim>\<open>float(x.get('beat', 0.0))\<close>, and a 120 BPM event is inserted at beat 0 when the
  first beat is positive.  Any exception makes the run print an error and return.
\<close>

fun sort_beat :: "tempo_event \<Rightarrow> py_exc + real" where
  "sort_beat TempoNotDict = Inl TypeError"
| "sort_beat (TempoEvent b m) = py_float (py_get b 0)"

fun beat_key :: "tempo_event \<Rightarrow> real" where
  "beat_key e = (case sort_beat e of Inr r \<Rightarrow> r | Inl _ \<Rightarrow> 0)"

definition prepare_tempo_map :: "tempo_event list \<Rightarrow> py_exc + (tempo_event list \<times> diag list)" where
  "prepare_tempo_map tempo_map =
     (if list_ex (\<lambda>e. sort_beat e = Inl TypeError) tempo_map then Inl TypeError
      else
        (case sort_key beat_key tempo_map of
           [] \<Rightarrow> Inl IndexError
         | e # es \<Rightarrow>
             if beat_key e > 0
             then Inr (TempoEvent (Some (Num 0)) (Some (Num 120)) # e # es, [WarnInsertBeat0 120])
             else Inr (e # es, [])))"

text \<open>The state of the loop of lines 105 to 145.\<close>

record tempo_state =
  beat_time_map :: "(real \<times> real) list"
  tempo_map_dict :: "real \<rightharpoonup> real"
  current_time_sec :: real
  last_beat :: real
  last_bpm :: real
  tempo_log :: "diag list"

definition tempo_init :: tempo_state where
  "tempo_init = \<lparr> beat_time_map = [(0, 0)], tempo_map_dict = Map.empty,
                  current_time_sec = 0, last_beat = 0, last_bpm = 120, tempo_log = [] \<rparr>"

text \<open>One iteration of the loop, for the event at index \<open>i\<close>.\<close>

definition tempo_step :: "nat \<Rightarrow> tempo_event \<Rightarrow> tempo_state \<Rightarrow> tempo_state" where
  "tempo_step i event s =
     (case (case event of
              TempoNotDict \<Rightarrow> Inl TypeError
            | TempoEvent b m \<Rightarrow>
                bind_exc (py_float (py_get b 0)) (\<lambda>event_beat.
                bind_exc (py_float (py_get m 120)) (\<lambda>event_bpm. Inr (event_beat, event_bpm)))) of
        Inl exc \<Rightarrow> s\<lparr> tempo_log := tempo_log s @ [WarnTempoEventSkipped i] \<rparr>
      | Inr (event_beat, bpm0) \<Rightarrow>
          if event_beat < last_beat s
          then s\<lparr> tempo_log := tempo_log s @ [WarnTempoUnsorted i event_beat (last_beat s)] \<rparr>
          else
            let event_bpm = (if bpm0 \<le> 0 then 120 else bpm0);
                log1 = (if bpm0 \<le> 0 then [WarnBpmNonPositive bpm0 event_beat] else []);
                time1 = (if i > 0 \<and> last_bpm s > 0
                         then current_time_sec s + ((event_beat - last_beat s) * 60) / last_bpm s
                         else current_time_sec s);
                log2 = (if i > 0 \<and> \<not> last_bpm s > 0 then [WarnPrevBpmInvalid] else []);
                anchor = (event_beat > last_beat s \<or> i = 0)
            in \<lparr> beat_time_map =
                   (if anchor then beat_time_map s @ [(event_beat, time1)] else beat_time_map s),
                 tempo_map_dict =
                   (if anchor then (tempo_map_dict s)(event_beat \<mapsto> event_bpm)
                    else tempo_map_dict s),
                 current_time_sec = time1,
                 last_beat = event_beat,
                 last_bpm = event_bpm,
                 tempo_log = tempo_log s @ log1 @ log2 \<rparr>)"

fun tempo_loop :: "nat \<Rightarrow> tempo_event list \<Rightarrow> tempo_state \<Rightarrow> tempo_state" where
  "tempo_loop i [] s = s"
| "tempo_loop i (event # events) s = tempo_loop (Suc i) events (tempo_step i event s)"

definition build_anchor_table :: "tempo_event list \<Rightarrow> tempo_state" where
  "build_anchor_table tempo_map = tempo_loop 0 tempo_map tempo_init"

text \<open>Beat to time over the table a tempo map builds.\<close>

definition beat_to_time :: "tempo_event list \<Rightarrow> real \<Rightarrow> real" where
  "beat_to_time tempo_map b =
     (let s = build_anchor_table tempo_map
      in fst (get_time_from_beat b (beat_time_map s) (tempo_map_dict s)))"

text \<open>A tempo event with both fields given as numbers.\<close>

definition ev :: "real \<Rightarrow> real \<Rightarrow> tempo_event" where
  "ev b m = TempoEvent (Some (Num b)) (Some (Num m))"

section \<open>\<^verbatim>\<open>json_to_midi.py\<close>: instruments and notes\<close>

text \<open>A \<^verbatim>\<open>pretty_midi.Note\<close>.\<close>

record midi_note =
  m_velocity :: int
  m_pitch :: int
  m_start :: real
  m_end :: real

text \<open>
  Line 152: the track numbers \<^verbatim>\<open>int(note.get('track', 0))\<close> of the notes that are
  dictionaries and carry the key \<^verbatim>\<open>track\<close>, in input order.  The conversion is outside
  any \<^verbatim>\<open>try\<close>: an exception there ends the run.
\<close>

fun note_tracks :: "raw_note list \<Rightarrow> py_exc + int list" where
  "note_tracks [] = Inr []"
| "note_tracks (NoteNotDict # rest) = note_tracks rest"
| "note_tracks (NoteDict n # rest) =
     (case track n of
        None \<Rightarrow> note_tracks rest
      | Some v \<Rightarrow> bind_exc (py_int v) (\<lambda>t. bind_exc (note_tracks rest) (\<lambda>ts. Inr (t # ts))))"

text \<open>
  Lines 153 to 162.  \<^verbatim>\<open>instruments\<close> maps a track number to the notes of its
  instrument; it is kept as an association list in the order of creation, which is
  ascending in the track number.
\<close>

fun create_instruments :: "int list \<Rightarrow> (int \<times> midi_note list) list \<times> diag list" where
  "create_instruments [] = ([], [])"
| "create_instruments (track_num # rest) =
     (let (ins, lg) = create_instruments rest
      in if track_num < 0 then (ins, WarnNegativeTrack track_num # lg)
         else ((track_num, []) # ins, InfoInstrumentCreated track_num # lg))"

text \<open>Lines 152 to 168, with the default instrument for track 0.\<close>

definition initial_instruments ::
  "raw_note list \<Rightarrow> py_exc + ((int \<times> midi_note list) list \<times> diag list)" where
  "initial_instruments notes_data =
     bind_exc (note_tracks notes_data) (\<lambda>ts.
       let (ins, lg) = create_instruments (sort (remdups ts))
       in if ins = [] then Inr ([(0, [])], lg @ [InfoDefaultInstrument])
          else Inr (ins, lg))"

text \<open>Lines 185 to 196: the fields of a note and the range checks.\<close>

definition parse_note :: "note_dict \<Rightarrow> py_exc + (int \<times> real \<times> real \<times> int \<times> int)" where
  "parse_note n =
     bind_exc (bind_exc (py_item (pitch n)) py_int) (\<lambda>p.
     bind_exc (bind_exc (py_item (start_beat n)) py_float) (\<lambda>sb.
     bind_exc (bind_exc (py_item (duration_beat n)) py_float) (\<lambda>db.
     bind_exc (py_int (py_get (velocity n) 100)) (\<lambda>v.
     bind_exc (py_int (py_get (track n) 0)) (\<lambda>t.
       if 0 \<le> p \<and> p \<le> 127 then
         if 0 \<le> v \<and> v \<le> 127 then
           if sb < 0 then Inl ValueError
           else if db \<le> 0 then Inl ValueError
           else Inr (p, sb, db, v, t)
         else Inl ValueError
       else Inl ValueError)))))"

record note_state =
  instruments :: "(int \<times> midi_note list) list"
  note_count :: nat
  skipped_count :: nat
  note_log :: "diag list"

text \<open>\<^verbatim>\<open>instruments[track].notes.append(midi_note)\<close>.\<close>

fun append_note ::
  "int \<Rightarrow> midi_note \<Rightarrow> (int \<times> midi_note list) list \<Rightarrow> (int \<times> midi_note list) list" where
  "append_note t m [] = []"
| "append_note t m ((k, ns) # rest) =
     (if k = t then (k, ns @ [m]) # rest else (k, ns) # append_note t m rest)"

definition skip_note :: "diag \<Rightarrow> note_state \<Rightarrow> note_state" where
  "skip_note d s = s\<lparr> skipped_count := Suc (skipped_count s), note_log := note_log s @ [d] \<rparr>"

text \<open>One iteration of the loop of lines 177 to 242, for the note at index \<open>i\<close>.\<close>

definition note_step ::
  "(real \<times> real) list \<Rightarrow> (real \<rightharpoonup> real) \<Rightarrow> nat \<Rightarrow> raw_note \<Rightarrow> note_state \<Rightarrow> note_state" where
  "note_step btm bpm_of i note s =
     (case note of
        NoteNotDict \<Rightarrow> skip_note (WarnNoteNotDict i) s
      | NoteDict n \<Rightarrow>
          (case parse_note n of
             Inl KeyError \<Rightarrow> skip_note (SkipNoteKeyError i) s
           | Inl _ \<Rightarrow> skip_note (SkipNoteValueError i) s
           | Inr (p, sb, db, v, t) \<Rightarrow>
               (case map_of (instruments s) t of
                  None \<Rightarrow> skip_note (WarnUnknownTrack t) s
                | Some _ \<Rightarrow>
                    let (start_time, w1) = get_time_from_beat sb btm bpm_of;
                        (end_time0, w2) = get_time_from_beat (sb + db) btm bpm_of;
                        clamped = (end_time0 \<le> start_time);
                        end_time = (if clamped then start_time + 1 / 1000 else end_time0);
                        midi_note = \<lparr> m_velocity = v, m_pitch = p,
                                      m_start = start_time, m_end = end_time \<rparr>
                    in s\<lparr> instruments := append_note t midi_note (instruments s),
                          note_count := Suc (note_count s),
                          note_log := note_log s @ w1 @ w2 @
                            (if clamped then [WarnDurationClamped i] else []) \<rparr>)))"

fun note_loop ::
  "(real \<times> real) list \<Rightarrow> (real \<rightharpoonup> real) \<Rightarrow> nat \<Rightarrow> raw_note list \<Rightarrow> note_state \<Rightarrow> note_state" where
  "note_loop btm bpm_of i [] s = s"
| "note_loop btm bpm_of i (note # rest) s =
     note_loop btm bpm_of (Suc i) rest (note_step btm bpm_of i note s)"

text \<open>What the run hands to \<^verbatim>\<open>pm.write\<close>, with its counters and everything printed.\<close>

record midi_output =
  out_instruments :: "(int \<times> midi_note list) list"
  out_note_count :: nat
  out_skipped_count :: nat
  out_log :: "diag list"

text \<open>A run ends early by printing an error and returning, or by an exception that
  nothing catches.\<close>

datatype abort = Returned diag | Raised py_exc

text \<open>Lines 245 to 250: the instruments that received a note, by ascending track.\<close>

fun final_instruments ::
  "(int \<times> midi_note list) list \<Rightarrow> (int \<times> midi_note list) list \<times> diag list" where
  "final_instruments [] = ([], [])"
| "final_instruments ((k, ns) # rest) =
     (let (out, lg) = final_instruments rest
      in if length ns > 0 then ((k, ns) # out, InfoInstrumentAdded k (length ns) # lg)
         else (out, InfoInstrumentEmpty k # lg))"

text \<open>
  \<^verbatim>\<open>json_to_midi\<close> from the parsed document on (reading the file and writing the MIDI
  file are input and output, and not modelled).
\<close>

definition json_to_midi :: "input_data \<Rightarrow> abort + midi_output" where
  "json_to_midi input =
     (case input of
        NotADict \<Rightarrow> Inl (Returned ErrNotObject)
      | Dict None _ _ \<Rightarrow> Inl (Returned ErrNotObject)
      | Dict (Some _) None _ \<Rightarrow> Inl (Returned ErrNotObject)
      | Dict (Some NotList) (Some _) _ \<Rightarrow> Inl (Returned ErrNotesNotList)
      | Dict (Some (JList notes_data)) (Some tempo_value) _ \<Rightarrow>
          let (tempo_map, log0) =
                (case tempo_value of
                   JList (e # es) \<Rightarrow> (e # es, [])
                 | _ \<Rightarrow> ([TempoEvent (Some (Num 0)) (Some (Num 120))],
                         [ErrTempoMapEmpty, WarnDefaultTempoAdded]))
          in (case prepare_tempo_map tempo_map of
                Inl IndexError \<Rightarrow> Inl (Raised IndexError)
              | Inl _ \<Rightarrow> Inl (Returned ErrTempoMapInvalid)
              | Inr (sorted_map, log1) \<Rightarrow>
                  let ts = tempo_loop 0 sorted_map tempo_init
                  in (case initial_instruments notes_data of
                        Inl exc \<Rightarrow> Inl (Raised exc)
                      | Inr (ins, log2) \<Rightarrow>
                          let s = note_loop (beat_time_map ts) (tempo_map_dict ts) 0 notes_data
                                    \<lparr> instruments = ins, note_count = 0, skipped_count = 0,
                                      note_log = [] \<rparr>;
                              (out, log3) = final_instruments (sort_key fst (instruments s))
                          in Inr \<lparr> out_instruments = out,
                                   out_note_count = note_count s,
                                   out_skipped_count = skipped_count s,
                                   out_log = log0 @ log1 @ tempo_log ts @ log2 @ note_log s @ log3
                                     @ [InfoProcessed (note_count s) (skipped_count s)] \<rparr>)))"

section \<open>\<^verbatim>\<open>json_to_midi_WORKING.py\<close>\<close>

text \<open>
  Lines 42 to 57: the document is checked and its parts extracted; an empty or missing
  tempo map makes the run print an error and return.  The MIDI file object of
  \<^verbatim>\<open>midiutil\<close> is created after that.
\<close>

definition working_extract ::
  "input_data \<Rightarrow> abort + (raw_note list \<times> tempo_event list \<times> jv)" where
  "working_extract input =
     (case input of
        NotADict \<Rightarrow> Inl (Returned ErrNotObject)
      | Dict None _ _ \<Rightarrow> Inl (Returned ErrNotObject)
      | Dict (Some _) None _ \<Rightarrow> Inl (Returned ErrNotObject)
      | Dict (Some NotList) (Some _) _ \<Rightarrow> Inl (Returned ErrNotesNotList)
      | Dict (Some (JList notes_data)) (Some NotList) _ \<Rightarrow> Inl (Returned ErrTempoMapEmpty)
      | Dict (Some (JList notes_data)) (Some (JList [])) _ \<Rightarrow> Inl (Returned ErrTempoMapEmpty)
      | Dict (Some (JList notes_data)) (Some (JList (e # es))) r \<Rightarrow>
          Inr (notes_data, e # es, py_get r 480))"

text \<open>Lines 101 to 116: the fields of a note and the checks of pitch, velocity and
  channel.\<close>

definition working_parse_note ::
  "note_dict \<Rightarrow> py_exc + (int \<times> int \<times> int \<times> real \<times> real \<times> int)" where
  "working_parse_note n =
     bind_exc (bind_exc (py_item (pitch n)) py_int) (\<lambda>p.
     bind_exc (bind_exc (py_item (start_beat n)) py_float) (\<lambda>sb.
     bind_exc (bind_exc (py_item (duration_beat n)) py_float) (\<lambda>db.
     bind_exc (py_int (py_get (track n) 0)) (\<lambda>t.
     bind_exc (py_int (py_get (channel n) 0)) (\<lambda>c.
     bind_exc (py_int (py_get (velocity n) 100)) (\<lambda>v.
       if 0 \<le> p \<and> p \<le> 127 then
         if 0 \<le> v \<and> v \<le> 127 then
           if 0 \<le> c \<and> c \<le> 15 then Inr (t, c, p, sb, db, v)
           else Inl ValueError
         else Inl ValueError
       else Inl ValueError))))))"

record 'm working_state =
  midi_file :: 'm
  w_note_count :: nat
  w_skipped_count :: nat
  w_log :: "diag list"

definition working_skip :: "diag \<Rightarrow> 'm working_state \<Rightarrow> 'm working_state" where
  "working_skip d s = s\<lparr> w_skipped_count := Suc (w_skipped_count s), w_log := w_log s @ [d] \<rparr>"

text \<open>
  One iteration of the loop of lines 93 to 138.  After the checks of
  \<open>working_parse_note\<close> come the warning about the track (lines 117 to 121, which does
  not reject the note) and the check of start beat and duration (lines 122 and 123).
  \<^verbatim>\<open>midi_file.addNote\<close> belongs to \<^verbatim>\<open>midiutil\<close> and is a parameter: it returns the file with
  the note added, or \<open>None\<close> when it raises.
\<close>

definition working_note_step ::
  "('m \<Rightarrow> int \<times> int \<times> int \<times> real \<times> real \<times> int \<Rightarrow> 'm option) \<Rightarrow> int \<Rightarrow> nat \<Rightarrow> raw_note \<Rightarrow>
     'm working_state \<Rightarrow> 'm working_state" where
  "working_note_step addNote num_tracks i note s =
     (case note of
        NoteNotDict \<Rightarrow> working_skip (WarnNoteNotDict i) s
      | NoteDict n \<Rightarrow>
          (case working_parse_note n of
             Inl KeyError \<Rightarrow> working_skip (SkipNoteKeyError i) s
           | Inl _ \<Rightarrow> working_skip (SkipNoteValueError i) s
           | Inr (t, c, p, sb, db, v) \<Rightarrow>
               let s1 = s\<lparr> w_log := w_log s @
                            (if t < 0 \<or> t \<ge> num_tracks then [WarnTrackRange t] else []) \<rparr>
               in if sb < 0 \<or> db \<le> 0 then working_skip (SkipNoteValueError i) s1
                  else
                    (case addNote (midi_file s) (t, c, p, sb, db, v) of
                       None \<Rightarrow> working_skip (SkipNoteException i) s1
                     | Some f \<Rightarrow> s1\<lparr> midi_file := f,
                                      w_note_count := Suc (w_note_count s) \<rparr>)))"

fun working_note_loop ::
  "('m \<Rightarrow> int \<times> int \<times> int \<times> real \<times> real \<times> int \<Rightarrow> 'm option) \<Rightarrow> int \<Rightarrow> nat \<Rightarrow> raw_note list \<Rightarrow>
     'm working_state \<Rightarrow> 'm working_state" where
  "working_note_loop addNote num_tracks i [] s = s"
| "working_note_loop addNote num_tracks i (note # rest) s =
     working_note_loop addNote num_tracks (Suc i) rest
       (working_note_step addNote num_tracks i note s)"

section \<open>\<^verbatim>\<open>midi_to_json.py\<close>\<close>

text \<open>\<^verbatim>\<open>float(ticks) / resolution\<close>.\<close>

definition ticks_to_beats :: "int \<Rightarrow> int \<Rightarrow> py_exc + real" where
  "ticks_to_beats ticks resolution =
     (if resolution = 0 then Inl ZeroDivisionError
      else Inr (real_of_int ticks / real_of_int resolution))"

fun map_exc :: "('a \<Rightarrow> 'e + 'b) \<Rightarrow> 'a list \<Rightarrow> 'e + 'b list" where
  "map_exc f [] = Inr []"
| "map_exc f (x # xs) = bind_exc (f x) (\<lambda>y. bind_exc (map_exc f xs) (\<lambda>ys. Inr (y # ys)))"

text \<open>
  Lines 47 to 68.  \<^verbatim>\<open>pm.get_tempo_changes()\<close> and \<^verbatim>\<open>pm.time_to_tick\<close> belong to
  \<^verbatim>\<open>pretty_midi\<close>: the times and tempi of the changes and the conversion to ticks are
  parameters.  A tempo event is the pair of its beat and its BPM.  An exception leaves
  \<^verbatim>\<open>tempo_map\<close> empty, and the handler then adds the default event.
\<close>

definition midi_tempo_map ::
  "(real \<Rightarrow> int) \<Rightarrow> int \<Rightarrow> real list \<Rightarrow> real list \<Rightarrow> (real \<times> real) list" where
  "midi_tempo_map time_to_tick resolution tempo_change_times tempo_change_bpm =
     (case map_exc (\<lambda>t. ticks_to_beats (time_to_tick t) resolution) tempo_change_times of
        Inl exc \<Rightarrow> [(0, 120)]
      | Inr tempo_change_beats \<Rightarrow>
          (case sort_key fst (zip tempo_change_beats tempo_change_bpm) of
             [] \<Rightarrow> [(0, 120)]
           | e # es \<Rightarrow> if fst e > 0 then (0, snd e) # e # es else e # es))"

text \<open>A note of \<^verbatim>\<open>pretty_midi\<close> as read from the file, and a note of the document.\<close>

record pm_note =
  pm_pitch :: int
  pm_velocity :: int
  pm_start :: real
  pm_end :: real

record json_note =
  j_pitch :: int
  j_start_beat :: real
  j_duration_beat :: real
  j_velocity :: int
  j_track :: nat

text \<open>Lines 75 to 94, for one note of the instrument with index \<open>instrument_num\<close>.\<close>

definition convert_note ::
  "(real \<Rightarrow> int) \<Rightarrow> int \<Rightarrow> nat \<Rightarrow> pm_note \<Rightarrow> py_exc + json_note" where
  "convert_note time_to_tick resolution instrument_num note =
     bind_exc (ticks_to_beats (time_to_tick (pm_start note)) resolution) (\<lambda>sb.
     bind_exc (ticks_to_beats (time_to_tick (pm_end note)) resolution) (\<lambda>eb.
     bind_exc (if eb - sb \<le> 0 then ticks_to_beats 1 resolution else Inr (eb - sb)) (\<lambda>db.
       Inr \<lparr> j_pitch = pm_pitch note, j_start_beat = sb, j_duration_beat = db,
             j_velocity = pm_velocity note, j_track = instrument_num \<rparr>)))"

text \<open>Lines 73 to 96: the notes of all instruments, in the order visited.\<close>

fun convert_instruments ::
  "(real \<Rightarrow> int) \<Rightarrow> int \<Rightarrow> nat \<Rightarrow> pm_note list list \<Rightarrow> py_exc + json_note list" where
  "convert_instruments time_to_tick resolution instrument_num [] = Inr []"
| "convert_instruments time_to_tick resolution instrument_num (ins # rest) =
     bind_exc (map_exc (convert_note time_to_tick resolution instrument_num) ins) (\<lambda>xs.
     bind_exc (convert_instruments time_to_tick resolution (Suc instrument_num) rest) (\<lambda>ys.
       Inr (xs @ ys)))"

text \<open>Lines 71 to 99: the \<^verbatim>\<open>notes\<close> of the document, sorted by start beat.\<close>

definition midi_notes ::
  "(real \<Rightarrow> int) \<Rightarrow> int \<Rightarrow> pm_note list list \<Rightarrow> py_exc + json_note list" where
  "midi_notes time_to_tick resolution pm_instruments =
     bind_exc (convert_instruments time_to_tick resolution 0 pm_instruments) (\<lambda>all_notes_data.
       Inr (sort_key j_start_beat all_notes_data))"

section \<open>Notions used in the statements\<close>

text \<open>The tempo an event contributes: line 119 to 121 replace a non-positive BPM by 120.\<close>

definition coerce_bpm :: "real \<Rightarrow> real" where
  "coerce_bpm m = (if m \<le> 0 then 120 else m)"

text \<open>
  The anchors that the loop appends for a list of (beat, BPM) pairs, when the previous
  event was at beat \<open>b\<close> and time \<open>t\<close> with tempo \<open>c\<close>: each anchor is reached at the
  tempo of the event before it.
\<close>

fun later_anchors :: "real \<Rightarrow> real \<Rightarrow> real \<Rightarrow> (real \<times> real) list \<Rightarrow> (real \<times> real) list" where
  "later_anchors t b c [] = []"
| "later_anchors t b c ((b', m) # rest) =
     (b', t + (b' - b) * 60 / c) # later_anchors (t + (b' - b) * 60 / c) b' (coerce_bpm m) rest"

text \<open>A tempo map whose events all give both fields as numbers.\<close>

definition evs :: "(real \<times> real) list \<Rightarrow> tempo_event list" where
  "evs ps = map (\<lambda>(b, m). ev b m) ps"

text \<open>
  The events that the loop of lines 111 to 145 admits while \<^verbatim>\<open>last_beat\<close> is still 0: both
  fields convert to numbers and the beat is not negative.  \<open>first_admitted\<close> is the first
  such event of a list, as its beat and its BPM.
\<close>

fun admit :: "tempo_event \<Rightarrow> (real \<times> real) option" where
  "admit TempoNotDict = None"
| "admit (TempoEvent b m) =
     (case py_float (py_get b 0) of
        Inl _ \<Rightarrow> None
      | Inr event_beat \<Rightarrow>
          (case py_float (py_get m 120) of
             Inl _ \<Rightarrow> None
           | Inr event_bpm \<Rightarrow> if event_beat < 0 then None else Some (event_beat, event_bpm)))"

fun first_admitted :: "tempo_event list \<Rightarrow> (real \<times> real) option" where
  "first_admitted [] = None"
| "first_admitted (e # es) = (case admit e of None \<Rightarrow> first_admitted es | Some p \<Rightarrow> Some p)"

text \<open>
  The validation rules of the note loop as a condition on the element of \<^verbatim>\<open>notes\<close>, in
  terms of the values in the document: it is not a dictionary, a required key is
  missing, the pitch or the velocity is at most -1 or at least 128, the start beat is
  negative, or the duration is not positive.
\<close>

definition violates_rule :: "raw_note \<Rightarrow> bool" where
  "violates_rule note =
     (case note of
        NoteNotDict \<Rightarrow> True
      | NoteDict n \<Rightarrow>
          pitch n = None \<or> start_beat n = None \<or> duration_beat n = None
          \<or> (case pitch n of Some (Num r) \<Rightarrow> r \<le> - 1 \<or> 128 \<le> r | _ \<Rightarrow> False)
          \<or> (case velocity n of Some (Num r) \<Rightarrow> r \<le> - 1 \<or> 128 \<le> r | _ \<Rightarrow> False)
          \<or> (case start_beat n of Some (Num r) \<Rightarrow> r < 0 | _ \<Rightarrow> False)
          \<or> (case duration_beat n of Some (Num r) \<Rightarrow> r \<le> 0 | _ \<Rightarrow> False))"

section \<open>Properties\<close>

lemmas run_defs = json_to_midi_def prepare_tempo_map_def tempo_step_def tempo_init_def
  initial_instruments_def parse_note_def note_step_def skip_note_def ev_def Let_def py_trunc_def


text \<open>
  C8.  Over an empty anchor table, \<^verbatim>\<open>get_time_from_beat\<close> does not fail: for every target
  beat it returns \<open>target_beat * 60 / 120\<close>, the time at a constant 120 BPM, and prints
  the warning that the table is empty.
\<close>

theorem get_time_from_beat_empty:
  "get_time_from_beat target_beat [] bpm_of =
     (target_beat * 60 / 120, [WarnBeatTimeMapEmpty])"
  by simp

subsection \<open>The anchor table of a canonical tempo map\<close>

lemma coerce_bpm_pos: "0 < coerce_bpm m"
  by (simp add: coerce_bpm_def)

lemma tempo_step_later:
  assumes "0 < i" "0 < last_bpm s" "last_beat s < b"
  shows "tempo_step i (ev b m) s =
     \<lparr> beat_time_map = beat_time_map s @ [(b, current_time_sec s + (b - last_beat s) * 60 / last_bpm s)],
       tempo_map_dict = (tempo_map_dict s)(b \<mapsto> coerce_bpm m),
       current_time_sec = current_time_sec s + (b - last_beat s) * 60 / last_bpm s,
       last_beat = b,
       last_bpm = coerce_bpm m,
       tempo_log = tempo_log s @ (if m \<le> 0 then [WarnBpmNonPositive m b] else []) \<rparr>"
  using assms by (simp add: tempo_step_def ev_def coerce_bpm_def Let_def)

lemma tempo_loop_table:
  assumes "0 < i" "0 < last_bpm s" "sorted_wrt (<) (last_beat s # map fst ps)"
  shows "beat_time_map (tempo_loop i (evs ps) s) =
           beat_time_map s @ later_anchors (current_time_sec s) (last_beat s) (last_bpm s) ps"
  using assms
proof (induction ps arbitrary: i s)
  case Nil
  then show ?case by (simp add: evs_def)
next
  case (Cons p ps)
  obtain b m where p: "p = (b, m)" by (cases p)
  let ?s = "tempo_step i (ev b m) s"
  have lt: "last_beat s < b" using Cons.prems p by simp
  have st: "?s = \<lparr> beat_time_map = beat_time_map s @ [(b, current_time_sec s + (b - last_beat s) * 60 / last_bpm s)],
       tempo_map_dict = (tempo_map_dict s)(b \<mapsto> coerce_bpm m),
       current_time_sec = current_time_sec s + (b - last_beat s) * 60 / last_bpm s,
       last_beat = b,
       last_bpm = coerce_bpm m,
       tempo_log = tempo_log s @ (if m \<le> 0 then [WarnBpmNonPositive m b] else []) \<rparr>"
    using tempo_step_later[OF Cons.prems(1) Cons.prems(2) lt] .
  have srt: "sorted_wrt (<) (last_beat ?s # map fst ps)"
    using Cons.prems(3) p by (simp add: st)
  have "beat_time_map (tempo_loop (Suc i) (evs ps) ?s) =
          beat_time_map ?s @ later_anchors (current_time_sec ?s) (last_beat ?s) (last_bpm ?s) ps"
    by (rule Cons.IH) (simp_all add: st coerce_bpm_pos srt[unfolded st, simplified])
  then show ?case
    by (simp add: p evs_def st)
qed

lemma tempo_loop_dict_other:
  assumes "k \<notin> fst ` set ps" "0 < i" "0 < last_bpm s" "sorted_wrt (<) (last_beat s # map fst ps)"
  shows "tempo_map_dict (tempo_loop i (evs ps) s) k = tempo_map_dict s k"
  using assms
proof (induction ps arbitrary: i s)
  case Nil
  then show ?case by (simp add: evs_def)
next
  case (Cons p ps)
  obtain b m where p: "p = (b, m)" by (cases p)
  let ?s = "tempo_step i (ev b m) s"
  have lt: "last_beat s < b" using Cons.prems p by simp
  note st = tempo_step_later[OF Cons.prems(2) Cons.prems(3) lt, of m]
  have "tempo_map_dict (tempo_loop (Suc i) (evs ps) ?s) k = tempo_map_dict ?s k"
    using Cons.prems p by (intro Cons.IH) (simp_all add: st coerce_bpm_pos)
  moreover have "k \<noteq> b" using Cons.prems(1) p by auto
  ultimately show ?case
    by (simp add: p evs_def st)
qed

lemma tempo_loop_dict:
  assumes "(b, m) \<in> set ps" "0 < i" "0 < last_bpm s" "sorted_wrt (<) (last_beat s # map fst ps)"
  shows "tempo_map_dict (tempo_loop i (evs ps) s) b = Some (coerce_bpm m)"
  using assms
proof (induction ps arbitrary: i s)
  case Nil
  then show ?case by simp
next
  case (Cons p ps)
  obtain b' m' where p: "p = (b', m')" by (cases p)
  let ?s = "tempo_step i (ev b' m') s"
  have lt: "last_beat s < b'" using Cons.prems p by simp
  note st = tempo_step_later[OF Cons.prems(2) Cons.prems(3) lt, of m']
  have srt: "sorted_wrt (<) (last_beat ?s # map fst ps)"
    using Cons.prems(4) p by (simp add: st)
  show ?case
  proof (cases "(b, m) \<in> set ps")
    case True
    have "tempo_map_dict (tempo_loop (Suc i) (evs ps) ?s) b = Some (coerce_bpm m)"
      using True srt by (intro Cons.IH) (simp_all add: st coerce_bpm_pos)
    then show ?thesis by (simp add: p evs_def)
  next
    case False
    then have eq: "b = b'" "m = m'" using Cons.prems(1) p by auto
    have "b' \<notin> fst ` set ps" using Cons.prems(4) p by auto
    then have "tempo_map_dict (tempo_loop (Suc i) (evs ps) ?s) b' = tempo_map_dict ?s b'"
      using srt by (intro tempo_loop_dict_other) (simp_all add: st coerce_bpm_pos)
    then show ?thesis by (simp add: p evs_def eq st)
  qed
qed


lemma time_last:
  assumes "0 < c" "D b = Some c"
  shows "fst (get_time_from_beat x [(b, t)] D) = t + (x - b) * 60 / c"
  using assms by simp

lemma time_cons:
  assumes "0 < c" "D b = Some c" "b < b'"
  shows "fst (get_time_from_beat x ((b, t) # (b', t') # rest) D) =
           (if b \<le> x \<and> x < b' then t + (x - b) * 60 / c
            else fst (get_time_from_beat x ((b', t') # rest) D))"
  using assms by simp

lemma mono_later:
  assumes "sorted_wrt (<) (b # map fst ps)" "0 < c" "D b = Some c"
    and "\<forall>p \<in> set ps. D (fst p) = Some (coerce_bpm (snd p))"
  shows "(\<forall>x. b \<le> x \<longrightarrow> t \<le> fst (get_time_from_beat x ((b, t) # later_anchors t b c ps) D)) \<and>
         (\<forall>x y. b \<le> x \<longrightarrow> x \<le> y \<longrightarrow>
            fst (get_time_from_beat x ((b, t) # later_anchors t b c ps) D)
              \<le> fst (get_time_from_beat y ((b, t) # later_anchors t b c ps) D))"
  using assms
proof (induction ps arbitrary: t b c)
  case Nil
  have seg: "\<And>x. fst (get_time_from_beat x [(b, t)] D) = t + (x - b) * 60 / c"
    using Nil.prems(2) Nil.prems(3) by (rule time_last)
  have lo: "\<And>x. b \<le> x \<Longrightarrow> 0 \<le> (x - b) * 60 / c"
    using Nil.prems(2) by simp
  have mono: "\<And>x y. x \<le> y \<Longrightarrow> (x - b) * 60 / c \<le> (y - b) * 60 / c"
    using Nil.prems(2) by (simp add: divide_right_mono)
  show ?case
    unfolding later_anchors.simps seg using lo mono by simp
next
  case (Cons p ps)
  obtain b' m where p: "p = (b', m)" by (cases p)
  define t' where "t' = t + (b' - b) * 60 / c"
  define c' where "c' = coerce_bpm m"
  define F' where "F' x = fst (get_time_from_beat x ((b', t') # later_anchors t' b' c' ps) D)" for x
  define F where "F x = fst (get_time_from_beat x ((b, t) # later_anchors t b c (p # ps)) D)" for x
  have lt: "b < b'" using Cons.prems(1) p by simp
  have cpos: "0 < c'" by (simp add: c'_def coerce_bpm_pos)
  have Db': "D b' = Some c'" using Cons.prems(4) p by (simp add: c'_def)
  have srt: "sorted_wrt (<) (b' # map fst ps)" using Cons.prems(1) p by simp
  have rest: "\<forall>q \<in> set ps. D (fst q) = Some (coerce_bpm (snd q))" using Cons.prems(4) by simp
  have IH: "(\<forall>x. b' \<le> x \<longrightarrow> t' \<le> F' x) \<and> (\<forall>x y. b' \<le> x \<longrightarrow> x \<le> y \<longrightarrow> F' x \<le> F' y)"
    unfolding F'_def using Cons.IH[OF srt cpos Db' rest] .
  have Feq: "F x = (if b \<le> x \<and> x < b' then t + (x - b) * 60 / c else F' x)" for x
    unfolding F_def F'_def p t'_def c'_def
    by (simp only: later_anchors.simps) (rule time_cons[where c = c], fact Cons.prems(2), fact Cons.prems(3), fact lt)
  have lo: "0 \<le> (x - b) * 60 / c" if "b \<le> x" for x
    using that Cons.prems(2) by simp
  have mono: "(x - b) * 60 / c \<le> (y - b) * 60 / c" if "x \<le> y" for x y
    using that Cons.prems(2) by (simp add: divide_right_mono)
  have tt': "t \<le> t'" unfolding t'_def using lo[of b'] lt by simp
  have low: "t \<le> F x" if "b \<le> x" for x
  proof (cases "x < b'")
    case True
    then show ?thesis using that lo[OF that] by (simp add: Feq)
  next
    case False
    then have "t' \<le> F' x" using IH by simp
    then show ?thesis using False tt' by (simp add: Feq)
  qed
  have up: "F x \<le> F y" if "b \<le> x" "x \<le> y" for x y
  proof (cases "y < b'")
    case True
    then show ?thesis using that mono[OF that(2)] by (simp add: Feq)
  next
    case yb: False
    show ?thesis
    proof (cases "x < b'")
      case True
      have "F x = t + (x - b) * 60 / c" using True that by (simp add: Feq)
      also have "\<dots> \<le> t'" unfolding t'_def using mono[of x b'] True by simp
      also have "\<dots> \<le> F' y" using IH yb by simp
      also have "\<dots> = F y" using yb by (simp add: Feq)
      finally show ?thesis .
    next
      case False
      then show ?thesis using IH yb that by (simp add: Feq)
    qed
  qed
  show ?case using low up unfolding F_def by blast
qed

lemma tempo_first:
  "tempo_step 0 (ev 0 m) tempo_init =
     \<lparr> beat_time_map = [(0, 0), (0, 0)], tempo_map_dict = [0 \<mapsto> coerce_bpm m],
       current_time_sec = 0, last_beat = 0, last_bpm = coerce_bpm m,
       tempo_log = (if m \<le> 0 then [WarnBpmNonPositive m 0] else []) \<rparr>"
  by (simp add: tempo_step_def tempo_init_def ev_def coerce_bpm_def Let_def)

lemma canonical_table:
  assumes "sorted_wrt (<) (0 # map fst ps)"
  shows "beat_time_map (build_anchor_table (evs ((0, m) # ps))) =
           (0, 0) # (0, 0) # later_anchors 0 0 (coerce_bpm m) ps"
    and "tempo_map_dict (build_anchor_table (evs ((0, m) # ps))) 0 = Some (coerce_bpm m)"
    and "\<forall>p \<in> set ps. tempo_map_dict (build_anchor_table (evs ((0, m) # ps))) (fst p)
            = Some (coerce_bpm (snd p))"
proof -
  let ?s = "tempo_step 0 (ev 0 m) tempo_init"
  have b: "build_anchor_table (evs ((0, m) # ps)) = tempo_loop (Suc 0) (evs ps) ?s"
    by (simp add: build_anchor_table_def evs_def)
  have srt: "sorted_wrt (<) (last_beat ?s # map fst ps)"
    using assms by (simp add: tempo_first)
  have pos: "0 < last_bpm ?s" by (simp add: tempo_first coerce_bpm_pos)
  show "beat_time_map (build_anchor_table (evs ((0, m) # ps))) =
           (0, 0) # (0, 0) # later_anchors 0 0 (coerce_bpm m) ps"
    unfolding b using tempo_loop_table[OF _ pos srt, of "Suc 0"] by (simp add: tempo_first)
  have "0 \<notin> fst ` set ps" using assms by auto
  then show "tempo_map_dict (build_anchor_table (evs ((0, m) # ps))) 0 = Some (coerce_bpm m)"
    unfolding b using tempo_loop_dict_other[OF _ _ pos srt, of 0 "Suc 0"] by (simp add: tempo_first)
  show "\<forall>p \<in> set ps. tempo_map_dict (build_anchor_table (evs ((0, m) # ps))) (fst p)
            = Some (coerce_bpm (snd p))"
  proof
    fix p assume "p \<in> set ps"
    then have "(fst p, snd p) \<in> set ps" by simp
    then show "tempo_map_dict (build_anchor_table (evs ((0, m) # ps))) (fst p)
            = Some (coerce_bpm (snd p))"
      unfolding b using tempo_loop_dict[OF _ _ pos srt, of "fst p" "snd p" "Suc 0"] by simp
  qed
qed

text \<open>
  The preparation of lines 88 to 102 turns every tempo map of numeric events with
  pairwise distinct, non-negative beats into a canonical map with strictly increasing
  beats that starts at beat 0.
\<close>

lemma insort_key_evs:
  "insort_key beat_key (ev b m) (evs qs) = evs (insort_key fst (b, m) qs)"
  by (induction qs) (auto simp: evs_def ev_def)

lemma sort_key_evs: "sort_key beat_key (evs ps) = evs (sort_key fst ps)"
proof (induction ps)
  case Nil
  then show ?case by (simp add: evs_def)
next
  case (Cons p ps)
  obtain b m where p: "p = (b, m)" by (cases p)
  have "sort_key beat_key (evs (p # ps)) = insort_key beat_key (ev b m) (sort_key beat_key (evs ps))"
    by (simp add: evs_def p)
  also have "\<dots> = insort_key beat_key (ev b m) (evs (sort_key fst ps))"
    by (simp only: Cons.IH)
  also have "\<dots> = evs (insort_key fst (b, m) (sort_key fst ps))"
    by (rule insort_key_evs)
  finally show ?case by (simp only: p sort_key_simps)
qed

lemma evs_no_type_error: "list_ex (\<lambda>e. sort_beat e = Inl TypeError) (evs ps) = False"
  by (induction ps) (auto simp: evs_def ev_def)

lemma prepare_tempo_map_canonical:
  assumes "distinct (map fst ps)" and "list_all (\<lambda>p. 0 \<le> fst p) ps" and "ps \<noteq> []"
  shows "\<exists>qs lg. prepare_tempo_map (evs ps) = Inr (evs qs, lg)
            \<and> sorted_wrt (<) (map fst qs) \<and> qs \<noteq> [] \<and> fst (hd qs) = 0"
proof -
  define ss where "ss = sort_key fst ps"
  have srt: "sorted (map fst ss)" by (simp add: ss_def)
  have "distinct ps" "inj_on fst (set ps)"
    using assms(1) by (simp_all add: distinct_map)
  then have "distinct ss" "inj_on fst (set ss)" by (simp_all add: ss_def)
  then have "distinct (map fst ss)" by (simp add: distinct_map)
  then have strict: "sorted_wrt (<) (map fst ss)"
    using srt by (simp add: strict_sorted_iff)
  have nonneg: "list_all (\<lambda>p. 0 \<le> fst p) ss"
    using assms(2) by (simp add: ss_def list_all_iff)
  have "length ss = length ps" by (simp add: ss_def)
  then have "ss \<noteq> []" using assms(3) by auto
  then obtain q rest where ss: "ss = q # rest" by (cases ss) auto
  obtain b m where q: "q = (b, m)" by (cases q)
  have sk: "sort_key beat_key (evs ps) = ev b m # evs rest"
    using sort_key_evs[of ps] by (simp add: ss_def[symmetric] ss q evs_def)
  show ?thesis
  proof (cases "0 < b")
    case True
    have "prepare_tempo_map (evs ps) = Inr (ev 0 120 # ev b m # evs rest, [WarnInsertBeat0 120])"
      using True by (simp add: prepare_tempo_map_def evs_no_type_error sk ev_def)
    moreover have "evs ((0, 120) # ss) = ev 0 120 # ev b m # evs rest"
      by (simp add: evs_def ss q)
    ultimately have p: "prepare_tempo_map (evs ps) = Inr (evs ((0, 120) # ss), [WarnInsertBeat0 120])"
      by simp
    have "\<forall>y \<in> set ss. b \<le> fst y" using srt by (auto simp: ss q)
    then have "\<forall>y \<in> set ss. 0 < fst y" using True by fastforce
    then have "sorted_wrt (<) (map fst ((0, 120) # ss))" using strict by simp
    then show ?thesis using p by (intro exI[of _ "(0, 120) # ss"] exI) simp
  next
    case False
    have "prepare_tempo_map (evs ps) = Inr (ev b m # evs rest, [])"
      using False by (simp add: prepare_tempo_map_def evs_no_type_error sk ev_def)
    moreover have "evs ss = ev b m # evs rest"
      by (simp add: evs_def ss q)
    ultimately have p: "prepare_tempo_map (evs ps) = Inr (evs ss, [])"
      by simp
    have "0 \<le> b" using nonneg by (simp add: ss q)
    then have "b = 0" using False by simp
    then show ?thesis using p strict by (intro exI[of _ ss] exI) (simp add: ss q)
  qed
qed

text \<open>
  C1 (as amended).  For a canonical tempo map (numeric events sorted by beat, the first at
  beat 0) whose beats are strictly increasing, beat to time is monotonic nondecreasing
  on the non-negative beats: \<open>0 \<le> b1 \<le> b2\<close> gives
  \<open>get_time_from_beat b1 \<le> get_time_from_beat b2\<close> over the table the loop builds.
\<close>

theorem beat_to_time_mono:
  assumes "sorted_wrt (<) (map fst ps)" "ps \<noteq> []" "fst (hd ps) = 0" "0 \<le> b1" "b1 \<le> b2"
  shows "beat_to_time (evs ps) b1 \<le> beat_to_time (evs ps) b2"
proof -
  obtain m rest where ps: "ps = (0, m) # rest"
    using assms(2,3) by (cases ps) auto
  have srt: "sorted_wrt (<) (0 # map fst rest)" using assms(1) ps by simp
  let ?D = "tempo_map_dict (build_anchor_table (evs ps))"
  let ?L = "later_anchors 0 0 (coerce_bpm m) rest"
  have tab: "beat_time_map (build_anchor_table (evs ps)) = (0, 0) # (0, 0) # ?L"
    using canonical_table(1)[OF srt] ps by simp
  have D0: "?D 0 = Some (coerce_bpm m)"
    using canonical_table(2)[OF srt] ps by simp
  have Dr: "\<forall>p \<in> set rest. ?D (fst p) = Some (coerce_bpm (snd p))"
    using canonical_table(3)[OF srt] ps by simp
  have drop: "fst (get_time_from_beat x ((0, 0) # (0, 0) # ?L) ?D)
                = fst (get_time_from_beat x ((0, 0) # ?L) ?D)" for x
    by simp
  have "fst (get_time_from_beat b1 ((0, 0) # ?L) ?D) \<le> fst (get_time_from_beat b2 ((0, 0) # ?L) ?D)"
    using mono_later[OF srt coerce_bpm_pos D0 Dr, of 0] assms(4,5) by blast
  then show ?thesis
    by (simp only: beat_to_time_def Let_def tab drop)
qed

theorem beat_to_time_mono_witness:
  "sorted_wrt (<) (map fst [(0 :: real, 120 :: real), (4, 60)])
   \<and> [(0 :: real, 120 :: real), (4, 60)] \<noteq> []
   \<and> fst (hd [(0 :: real, 120 :: real), (4, 60)]) = 0 \<and> (0 :: real) \<le> 4 \<and> (4 :: real) \<le> 6
   \<and> beat_to_time (evs [(0, 120), (4, 60)]) 4 \<le> beat_to_time (evs [(0, 120), (4, 60)]) 6"
  using beat_to_time_mono [of "[(0, 120), (4, 60)]" 4 6] by simp

text \<open>
  C1 as stated fails when two events share a beat and the second is faster: the tempo map
  below is sorted, starts at beat 0 and has positive tempi (the preparation leaves it as
  it is), yet beat 3.9 is mapped to a later time than beat 4.
\<close>

theorem beat_to_time_mono_counterexample:
  "prepare_tempo_map [ev 0 120, ev 2 100, ev 2 200, ev 4 60] =
     Inr ([ev 0 120, ev 2 100, ev 2 200, ev 4 60], [])
   \<and> (39 / 10 :: real) \<le> 4
   \<and> \<not> beat_to_time [ev 0 120, ev 2 100, ev 2 200, ev 4 60] (39 / 10)
        \<le> beat_to_time [ev 0 120, ev 2 100, ev 2 200, ev 4 60] 4"
  by (simp add: beat_to_time_def build_anchor_table_def run_defs)

text \<open>A negative beat is looked up in the last segment, so monotonicity also needs
  \<open>0 \<le> b1\<close>.\<close>

lemma beat_to_time_negative_beat:
  "beat_to_time [ev 0 60, ev 4 240] 0 < beat_to_time [ev 0 60, ev 4 240] (- 1)"
  by (simp add: beat_to_time_def build_anchor_table_def run_defs)

text \<open>
  C2.  Scenario A: with the tempo map 120 BPM at beat 0 and 60 BPM at beat 4, a note
  with start beat 4 and duration 2 is converted to the start time 2 seconds and the end
  time 4 seconds, by the two calls of \<^verbatim>\<open>get_time_from_beat\<close> and in the output of the run.
\<close>

theorem scenario_a:
  "get_time_from_beat 4 (beat_time_map (build_anchor_table [ev 0 120, ev 4 60]))
      (tempo_map_dict (build_anchor_table [ev 0 120, ev 4 60])) = (2, []) \<and>
   get_time_from_beat (4 + 2) (beat_time_map (build_anchor_table [ev 0 120, ev 4 60]))
      (tempo_map_dict (build_anchor_table [ev 0 120, ev 4 60])) = (4, []) \<and>
   (case json_to_midi
      (Dict (Some (JList [NoteDict \<lparr> pitch = Some (Num 60), start_beat = Some (Num 4),
                                    duration_beat = Some (Num 2), velocity = None,
                                    track = None, channel = None \<rparr>]))
            (Some (JList [ev 0 120, ev 4 60])) None) of
      Inl a \<Rightarrow> False
    | Inr out \<Rightarrow> out_instruments out =
        [(0, [\<lparr> m_velocity = 100, m_pitch = 60, m_start = 2, m_end = 4 \<rparr>])]
        \<and> out_note_count out = 1 \<and> out_skipped_count out = 0)"
  by (simp add: run_defs build_anchor_table_def)



subsection \<open>Rejected notes\<close>

lemma bind_exc_Inr: "bind_exc x f = Inr r \<longleftrightarrow> (\<exists>a. x = Inr a \<and> f a = Inr r)"
  by (cases x) simp_all

lemma py_item_Inr: "py_item x = Inr v \<longleftrightarrow> x = Some v"
  by (cases x) auto

lemma py_int_Inr: "py_int v = Inr k \<longleftrightarrow> (\<exists>r. v = Num r \<and> k = py_trunc r)"
  by (cases v) auto

lemma py_float_Inr: "py_float v = Inr r \<longleftrightarrow> v = Num r"
  by (cases v) auto

lemma parse_note_Inr:
  assumes "parse_note n = Inr (p, sb, db, v, t)"
  shows "(\<exists>r. pitch n = Some (Num r) \<and> p = py_trunc r) \<and> start_beat n = Some (Num sb)
         \<and> duration_beat n = Some (Num db) \<and> py_int (py_get (velocity n) 100) = Inr v
         \<and> py_int (py_get (track n) 0) = Inr t
         \<and> 0 \<le> p \<and> p \<le> 127 \<and> 0 \<le> v \<and> v \<le> 127 \<and> 0 \<le> sb \<and> 0 < db"
  using assms unfolding parse_note_def
  by (auto simp: bind_exc_Inr py_item_Inr py_int_Inr py_float_Inr split: if_splits)

lemma working_parse_note_Inr:
  assumes "working_parse_note n = Inr (t, c, p, sb, db, v)"
  shows "(\<exists>r. pitch n = Some (Num r) \<and> p = py_trunc r) \<and> start_beat n = Some (Num sb)
         \<and> duration_beat n = Some (Num db) \<and> py_int (py_get (velocity n) 100) = Inr v
         \<and> py_int (py_get (track n) 0) = Inr t \<and> py_int (py_get (channel n) 0) = Inr c
         \<and> 0 \<le> p \<and> p \<le> 127 \<and> 0 \<le> v \<and> v \<le> 127 \<and> 0 \<le> c \<and> c \<le> 15"
  using assms unfolding working_parse_note_def
  by (auto simp: bind_exc_Inr py_item_Inr py_int_Inr py_float_Inr split: if_splits)

lemma py_trunc_negative: "py_trunc r < 0 \<longleftrightarrow> r \<le> - 1"
proof (cases "0 \<le> r")
  case True
  then have "py_trunc r = \<lfloor>r\<rfloor>" by (simp add: py_trunc_def)
  moreover have "0 \<le> \<lfloor>r\<rfloor>" using True by simp
  ultimately have "\<not> py_trunc r < 0" by linarith
  then show ?thesis using True by simp
next
  case False
  then have eq: "py_trunc r = - \<lfloor>- r\<rfloor>" by (simp add: py_trunc_def)
  have "1 \<le> \<lfloor>- r\<rfloor> \<longleftrightarrow> 1 \<le> - r"
    using le_floor_iff[of 1 "- r"] by simp
  then have "py_trunc r < 0 \<longleftrightarrow> 1 \<le> - r" unfolding eq by linarith
  then show ?thesis by linarith
qed

lemma py_trunc_above: "127 < py_trunc r \<longleftrightarrow> 128 \<le> r"
proof (cases "0 \<le> r")
  case True
  then have eq: "py_trunc r = \<lfloor>r\<rfloor>" by (simp add: py_trunc_def)
  have "128 \<le> \<lfloor>r\<rfloor> \<longleftrightarrow> 128 \<le> r"
    using le_floor_iff[of 128 r] by simp
  then show ?thesis unfolding eq by linarith
next
  case False
  then have eq: "py_trunc r = - \<lfloor>- r\<rfloor>" by (simp add: py_trunc_def)
  have "0 \<le> \<lfloor>- r\<rfloor>" using False by simp
  then have "\<not> 127 < py_trunc r" unfolding eq by linarith
  then show ?thesis using False by simp
qed

lemma py_trunc_nonneg: "0 \<le> py_trunc r \<longleftrightarrow> - 1 < r"
  using py_trunc_negative[of r] by linarith

lemma py_trunc_le_127: "py_trunc r \<le> 127 \<longleftrightarrow> r < 128"
  using py_trunc_above[of r] by linarith

lemma violates_parse_note:
  assumes "violates_rule (NoteDict n)"
  shows "\<exists>e. parse_note n = Inl e"
proof (cases "parse_note n")
  case (Inl e)
  then show ?thesis by simp
next
  case (Inr r)
  obtain p sb db v t where r: "r = (p, sb, db, v, t)" by (cases r)
  note ok = parse_note_Inr[OF Inr[unfolded r]]
  from ok obtain pr where pr: "pitch n = Some (Num pr)" "p = py_trunc pr" by blast
  have vel: "velocity n = None \<or> (\<exists>vr. velocity n = Some (Num vr) \<and> v = py_trunc vr)"
    using ok by (cases "velocity n") (auto simp: py_int_Inr)
  have False
    using assms ok pr vel unfolding violates_rule_def
    by (auto simp: py_trunc_nonneg py_trunc_le_127)
  then show ?thesis ..
qed

lemma violates_working_parse_note:
  assumes "violates_rule (NoteDict n)"
    and "working_parse_note n = Inr (t, c, p, sb, db, v)"
  shows "sb < 0 \<or> db \<le> 0"
proof -
  note ok = working_parse_note_Inr[OF assms(2)]
  from ok obtain pr where pr: "pitch n = Some (Num pr)" "p = py_trunc pr" by blast
  have vel: "velocity n = None \<or> (\<exists>vr. velocity n = Some (Num vr) \<and> v = py_trunc vr)"
    using ok by (cases "velocity n") (auto simp: py_int_Inr)
  show ?thesis
    using assms(1) ok pr vel unfolding violates_rule_def
    by (auto simp: py_trunc_nonneg py_trunc_le_127)
qed

lemma note_step_violates:
  assumes "violates_rule note"
  shows "\<exists>d. note_step btm D i note s = skip_note d s"
proof (cases "note")
  case NoteNotDict
  then show ?thesis by (auto simp add: note_step_def)
next
  case (NoteDict n)
  then obtain e where "parse_note n = Inl e" using assms violates_parse_note by blast
  then show ?thesis using NoteDict by (cases e) (auto simp add: note_step_def)
qed

lemma working_note_step_violates:
  assumes "violates_rule note"
  shows "midi_file (working_note_step addNote k i note w) = midi_file w
       \<and> w_note_count (working_note_step addNote k i note w) = w_note_count w
       \<and> w_skipped_count (working_note_step addNote k i note w) = Suc (w_skipped_count w)"
proof (cases "note")
  case NoteNotDict
  then show ?thesis by (simp add: working_note_step_def working_skip_def)
next
  case (NoteDict n)
  show ?thesis
  proof (cases "working_parse_note n")
    case (Inl e)
    then show ?thesis
      using NoteDict by (cases e) (simp_all add: working_note_step_def working_skip_def)
  next
    case (Inr r)
    obtain t c p sb db v where r: "r = (t, c, p, sb, db, v)" by (cases r)
    have "sb < 0 \<or> db \<le> 0"
      using violates_working_parse_note[of n t c p sb db v] assms NoteDict Inr r by simp
    then show ?thesis
      using NoteDict Inr r by (auto simp add: working_note_step_def working_skip_def Let_def)
  qed
qed

lemma note_loop_append:
  "note_loop btm D i (xs @ ys) s = note_loop btm D (i + length xs) ys (note_loop btm D i xs s)"
  by (induction xs arbitrary: i s) simp_all

lemma working_note_loop_append:
  "working_note_loop addNote k i (xs @ ys) w =
     working_note_loop addNote k (i + length xs) ys (working_note_loop addNote k i xs w)"
  by (induction xs arbitrary: i w) simp_all

lemma note_step_counts:
  "note_count (note_step btm D i note s) \<le> Suc (note_count s)
   \<and> skipped_count s \<le> skipped_count (note_step btm D i note s)"
proof (cases "note")
  case NoteNotDict
  then show ?thesis by (simp add: note_step_def skip_note_def)
next
  case (NoteDict n)
  show ?thesis
  proof (cases "parse_note n")
    case (Inl e)
    then show ?thesis using NoteDict by (cases e) (simp_all add: note_step_def skip_note_def)
  next
    case (Inr r)
    obtain p sb db v t where r: "r = (p, sb, db, v, t)" by (cases r)
    show ?thesis
      using NoteDict Inr r
      by (cases "map_of (instruments s) t")
         (simp_all add: note_step_def skip_note_def Let_def split_beta)
  qed
qed

lemma note_loop_counts:
  "note_count (note_loop btm D i ns s) \<le> note_count s + length ns
   \<and> skipped_count s \<le> skipped_count (note_loop btm D i ns s)"
proof (induction ns arbitrary: i s)
  case Nil
  then show ?case by simp
next
  case (Cons a ns)
  have st: "note_count (note_step btm D i a s) \<le> Suc (note_count s)"
    "skipped_count s \<le> skipped_count (note_step btm D i a s)"
    using note_step_counts[of btm D i a s] by simp_all
  have ih: "note_count (note_loop btm D (Suc i) ns (note_step btm D i a s))
              \<le> note_count (note_step btm D i a s) + length ns"
    "skipped_count (note_step btm D i a s)
       \<le> skipped_count (note_loop btm D (Suc i) ns (note_step btm D i a s))"
    using Cons.IH[of "Suc i" "note_step btm D i a s"] by simp_all
  show ?case using st ih by simp
qed

lemma working_note_step_counts:
  "w_note_count (working_note_step addNote k i note w) \<le> Suc (w_note_count w)
   \<and> w_skipped_count w \<le> w_skipped_count (working_note_step addNote k i note w)"
proof (cases "note")
  case NoteNotDict
  then show ?thesis by (simp add: working_note_step_def working_skip_def)
next
  case (NoteDict n)
  show ?thesis
  proof (cases "working_parse_note n")
    case (Inl e)
    then show ?thesis
      using NoteDict by (cases e) (simp_all add: working_note_step_def working_skip_def)
  next
    case (Inr r)
    obtain t c p sb db v where r: "r = (t, c, p, sb, db, v)" by (cases r)
    show ?thesis
      using NoteDict Inr r
      by (cases "addNote (midi_file w) (t, c, p, sb, db, v)")
         (simp_all add: working_note_step_def working_skip_def Let_def)
  qed
qed

lemma working_note_loop_counts:
  "w_note_count (working_note_loop addNote k i ns w) \<le> w_note_count w + length ns
   \<and> w_skipped_count w \<le> w_skipped_count (working_note_loop addNote k i ns w)"
proof (induction ns arbitrary: i w)
  case Nil
  then show ?case by simp
next
  case (Cons a ns)
  have st: "w_note_count (working_note_step addNote k i a w) \<le> Suc (w_note_count w)"
    "w_skipped_count w \<le> w_skipped_count (working_note_step addNote k i a w)"
    using working_note_step_counts[of addNote k i a w] by simp_all
  have ih: "w_note_count (working_note_loop addNote k (Suc i) ns (working_note_step addNote k i a w))
              \<le> w_note_count (working_note_step addNote k i a w) + length ns"
    "w_skipped_count (working_note_step addNote k i a w)
       \<le> w_skipped_count (working_note_loop addNote k (Suc i) ns (working_note_step addNote k i a w))"
    using Cons.IH[of "Suc i" "working_note_step addNote k i a w"] by simp_all
  show ?case using st ih by simp
qed

lemma note_loop_rejected:
  assumes "violates_rule note"
  shows "note_count (note_loop btm D i (xs @ note # ys) s) \<le> note_count s + length xs + length ys
       \<and> Suc (skipped_count s) \<le> skipped_count (note_loop btm D i (xs @ note # ys) s)"
proof -
  let ?s1 = "note_loop btm D i xs s"
  let ?s2 = "note_step btm D (i + length xs) note ?s1"
  obtain d where d: "?s2 = skip_note d ?s1"
    using note_step_violates[OF assms] by blast
  have a: "note_count ?s1 \<le> note_count s + length xs" "skipped_count s \<le> skipped_count ?s1"
    using note_loop_counts[of btm D i xs s] by simp_all
  have b: "note_count ?s2 = note_count ?s1" "skipped_count ?s2 = Suc (skipped_count ?s1)"
    by (simp_all add: d skip_note_def)
  have c: "note_count (note_loop btm D (Suc (i + length xs)) ys ?s2) \<le> note_count ?s2 + length ys"
    "skipped_count ?s2 \<le> skipped_count (note_loop btm D (Suc (i + length xs)) ys ?s2)"
    using note_loop_counts[of btm D "Suc (i + length xs)" ys ?s2] by simp_all
  have e: "note_loop btm D i (xs @ note # ys) s = note_loop btm D (Suc (i + length xs)) ys ?s2"
    by (simp add: note_loop_append)
  show ?thesis unfolding e using a b c by linarith
qed

lemma working_note_loop_rejected:
  assumes "violates_rule note"
  shows "w_note_count (working_note_loop addNote k i (xs @ note # ys) w)
           \<le> w_note_count w + length xs + length ys
       \<and> Suc (w_skipped_count w) \<le> w_skipped_count (working_note_loop addNote k i (xs @ note # ys) w)"
proof -
  let ?s1 = "working_note_loop addNote k i xs w"
  let ?s2 = "working_note_step addNote k (i + length xs) note ?s1"
  have a: "w_note_count ?s1 \<le> w_note_count w + length xs" "w_skipped_count w \<le> w_skipped_count ?s1"
    using working_note_loop_counts[of addNote k i xs w] by simp_all
  have b: "w_note_count ?s2 = w_note_count ?s1" "w_skipped_count ?s2 = Suc (w_skipped_count ?s1)"
    using working_note_step_violates[OF assms, of addNote k "i + length xs" ?s1] by simp_all
  have c: "w_note_count (working_note_loop addNote k (Suc (i + length xs)) ys ?s2)
             \<le> w_note_count ?s2 + length ys"
    "w_skipped_count ?s2 \<le> w_skipped_count (working_note_loop addNote k (Suc (i + length xs)) ys ?s2)"
    using working_note_loop_counts[of addNote k "Suc (i + length xs)" ys ?s2] by simp_all
  have e: "working_note_loop addNote k i (xs @ note # ys) w =
             working_note_loop addNote k (Suc (i + length xs)) ys ?s2"
    by (simp add: working_note_loop_append)
  show ?thesis unfolding e using a b c by linarith
qed

lemma json_to_midi_output:
  assumes "prepare_tempo_map (e # es) = Inr (sm, l1)"
    and "initial_instruments notes_data = Inr (ins, l2)"
  shows "\<exists>out. json_to_midi (Dict (Some (JList notes_data)) (Some (JList (e # es))) r) = Inr out
           \<and> out_note_count out =
               note_count (note_loop (beat_time_map (tempo_loop 0 sm tempo_init))
                  (tempo_map_dict (tempo_loop 0 sm tempo_init)) 0 notes_data
                  \<lparr> instruments = ins, note_count = 0, skipped_count = 0, note_log = [] \<rparr>)
           \<and> out_skipped_count out =
               skipped_count (note_loop (beat_time_map (tempo_loop 0 sm tempo_init))
                  (tempo_map_dict (tempo_loop 0 sm tempo_init)) 0 notes_data
                  \<lparr> instruments = ins, note_count = 0, skipped_count = 0, note_log = [] \<rparr>)"
  using assms by (simp add: json_to_midi_def Let_def split_beta)

text \<open>
  C7 (as amended).  A note that violates a validation rule as the code checks it (not a
  dictionary, a required key missing, pitch or velocity at most -1 or at least 128, that
  is with an integer part outside 0 to 127, a negative start beat, a duration that is not
  positive) is rejected in both writers: the step of the note loop leaves the instruments
  (the MIDI file) and the count of converted notes as they were and increments the skip
  counter.  The loops are total and go on with the notes after the rejected one; at their
  end the rejected note is counted as skipped and not as converted.  In
  \<^verbatim>\<open>json_to_midi.py\<close>, a run whose tempo map and instruments were set up ends with an
  output in which the note is counted as skipped: the rejection does not end the run.
\<close>

theorem invalid_note_skipped:
  assumes "violates_rule note"
  shows "instruments (note_step btm D i note s) = instruments s
       \<and> note_count (note_step btm D i note s) = note_count s
       \<and> skipped_count (note_step btm D i note s) = Suc (skipped_count s)
       \<and> note_loop btm D i (xs @ note # ys) s =
           note_loop btm D (Suc (i + length xs)) ys
             (note_step btm D (i + length xs) note (note_loop btm D i xs s))
       \<and> midi_file (working_note_step addNote k i note w) = midi_file w
       \<and> w_note_count (working_note_step addNote k i note w) = w_note_count w
       \<and> w_skipped_count (working_note_step addNote k i note w) = Suc (w_skipped_count w)
       \<and> working_note_loop addNote k i (xs @ note # ys) w =
           working_note_loop addNote k (Suc (i + length xs)) ys
             (working_note_step addNote k (i + length xs) note (working_note_loop addNote k i xs w))
       \<and> note_count (note_loop btm D i (xs @ note # ys) s)
            \<le> note_count s + length xs + length ys
       \<and> Suc (skipped_count s) \<le> skipped_count (note_loop btm D i (xs @ note # ys) s)
       \<and> w_note_count (working_note_loop addNote k i (xs @ note # ys) w)
            \<le> w_note_count w + length xs + length ys
       \<and> Suc (w_skipped_count w)
            \<le> w_skipped_count (working_note_loop addNote k i (xs @ note # ys) w)
       \<and> (prepare_tempo_map (e # es) = Inr (sm, l1) \<longrightarrow>
          initial_instruments (xs @ note # ys) = Inr (ins, l2) \<longrightarrow>
          (\<exists>out. json_to_midi (Dict (Some (JList (xs @ note # ys))) (Some (JList (e # es))) r)
                   = Inr out
                \<and> out_note_count out \<le> length xs + length ys
                \<and> 1 \<le> out_skipped_count out))"
proof -
  obtain d where d: "note_step btm D i note s = skip_note d s"
    using note_step_violates[OF assms] by blast
  have steps: "instruments (note_step btm D i note s) = instruments s
       \<and> note_count (note_step btm D i note s) = note_count s
       \<and> skipped_count (note_step btm D i note s) = Suc (skipped_count s)
       \<and> note_loop btm D i (xs @ note # ys) s =
           note_loop btm D (Suc (i + length xs)) ys
             (note_step btm D (i + length xs) note (note_loop btm D i xs s))
       \<and> midi_file (working_note_step addNote k i note w) = midi_file w
       \<and> w_note_count (working_note_step addNote k i note w) = w_note_count w
       \<and> w_skipped_count (working_note_step addNote k i note w) = Suc (w_skipped_count w)
       \<and> working_note_loop addNote k i (xs @ note # ys) w =
           working_note_loop addNote k (Suc (i + length xs)) ys
             (working_note_step addNote k (i + length xs) note (working_note_loop addNote k i xs w))"
    using working_note_step_violates[OF assms, of addNote k i w]
    by (simp add: d skip_note_def note_loop_append working_note_loop_append)
  have run: "\<exists>out. json_to_midi (Dict (Some (JList (xs @ note # ys))) (Some (JList (e # es))) r)
                   = Inr out
                \<and> out_note_count out \<le> length xs + length ys
                \<and> 1 \<le> out_skipped_count out"
    if p: "prepare_tempo_map (e # es) = Inr (sm, l1)"
      and q: "initial_instruments (xs @ note # ys) = Inr (ins, l2)"
  proof -
    let ?s0 = "\<lparr> instruments = ins, note_count = 0, skipped_count = 0, note_log = [] \<rparr>"
    let ?btm = "beat_time_map (tempo_loop 0 sm tempo_init)"
    let ?D = "tempo_map_dict (tempo_loop 0 sm tempo_init)"
    obtain out where out:
      "json_to_midi (Dict (Some (JList (xs @ note # ys))) (Some (JList (e # es))) r) = Inr out"
      "out_note_count out = note_count (note_loop ?btm ?D 0 (xs @ note # ys) ?s0)"
      "out_skipped_count out = skipped_count (note_loop ?btm ?D 0 (xs @ note # ys) ?s0)"
      using json_to_midi_output[OF p q, of r] by blast
    have "note_count (note_loop ?btm ?D 0 (xs @ note # ys) ?s0) \<le> length xs + length ys"
      "1 \<le> skipped_count (note_loop ?btm ?D 0 (xs @ note # ys) ?s0)"
      using note_loop_rejected[OF assms, of ?btm ?D 0 xs ys ?s0] by simp_all
    then show ?thesis using out by auto
  qed
  show ?thesis
    using steps note_loop_rejected[OF assms, of btm D i xs ys s]
      working_note_loop_rejected[OF assms, of addNote k i xs ys w] run
    by blast
qed

theorem invalid_note_skipped_witness:
  "violates_rule (NoteDict \<lparr> pitch = Some (Num 60), start_beat = Some (Num (- 1)),
                    duration_beat = Some (Num 1), velocity = None, track = None,
                    channel = None \<rparr>)
   \<and> prepare_tempo_map [ev 0 120] = Inr ([ev 0 120], [])
   \<and> initial_instruments [NoteDict \<lparr> pitch = Some (Num 60), start_beat = Some (Num (- 1)),
                    duration_beat = Some (Num 1), velocity = None, track = None,
                    channel = None \<rparr>] = Inr ([(0, [])], [InfoDefaultInstrument])
   \<and> skipped_count (note_step [] Map.empty 0
        (NoteDict \<lparr> pitch = Some (Num 60), start_beat = Some (Num (- 1)),
                    duration_beat = Some (Num 1), velocity = None, track = None,
                    channel = None \<rparr>)
        \<lparr> instruments = [(0, [])], note_count = 0, skipped_count = 0, note_log = [] \<rparr>) = 1
   \<and> instruments (note_step [] Map.empty 0
        (NoteDict \<lparr> pitch = Some (Num 60), start_beat = Some (Num (- 1)),
                    duration_beat = Some (Num 1), velocity = None, track = None,
                    channel = None \<rparr>)
        \<lparr> instruments = [(0, [])], note_count = 0, skipped_count = 0, note_log = [] \<rparr>)
        = [(0, [])]
   \<and> w_skipped_count (working_note_step (\<lambda>f n. Some (n # f)) 1 0
        (NoteDict \<lparr> pitch = Some (Num 60), start_beat = Some (Num (- 1)),
                    duration_beat = Some (Num 1), velocity = None, track = None,
                    channel = None \<rparr>)
        \<lparr> midi_file = [], w_note_count = 0, w_skipped_count = 0, w_log = [] \<rparr>) = 1
   \<and> (case json_to_midi (Dict (Some (JList [NoteDict \<lparr> pitch = Some (Num 60), start_beat = Some (Num (- 1)),
                    duration_beat = Some (Num 1), velocity = None, track = None,
                    channel = None \<rparr>]))
                (Some (JList [ev 0 120])) None) of
         Inl a \<Rightarrow> False
       | Inr out \<Rightarrow> out_instruments out = [] \<and> out_note_count out = 0
                      \<and> out_skipped_count out = 1)"
  using invalid_note_skipped [of
      "NoteDict \<lparr> pitch = Some (Num 60), start_beat = Some (Num (- 1)),
                    duration_beat = Some (Num 1), velocity = None, track = None,
                    channel = None \<rparr>", where
      btm = "[]" and D = Map.empty and i = 0
      and s = "\<lparr> instruments = [(0, [])], note_count = 0, skipped_count = 0, note_log = [] \<rparr>"
      and xs = "[]" and ys = "[]" and addNote = "\<lambda>f n. Some (n # f)" and k = 1
      and w = "\<lparr> midi_file = [], w_note_count = 0, w_skipped_count = 0, w_log = [] \<rparr>"
      and e = "ev 0 120" and es = "[]" and sm = "[ev 0 120]" and ?l1.0 = "[]"
      and ins = "[(0, [])]" and ?l2.0 = "[InfoDefaultInstrument]" and r = None]
  by (simp add: violates_rule_def run_defs)

text \<open>
  C7 as stated rejects every note whose pitch or velocity is outside 0 to 127.  The
  velocity -0.5 is outside that range, but \<^verbatim>\<open>int(...)\<close> truncates it to 0 before the check
  of line 194 (line 113 in \<^verbatim>\<open>json_to_midi_WORKING.py\<close>): both writers convert the note,
  with velocity 0, and do not count it as skipped.
\<close>

theorem invalid_note_skipped_counterexample:
  "(- 1 / 2 :: real) < 0
   \<and> (case json_to_midi (Dict (Some (JList [NoteDict \<lparr> pitch = Some (Num 60), start_beat = Some (Num 0),
                    duration_beat = Some (Num 1), velocity = Some (Num (- 1 / 2)),
                    track = None, channel = None \<rparr>]))
                (Some (JList [ev 0 120])) None) of
         Inl a \<Rightarrow> False
       | Inr out \<Rightarrow>
           out_instruments out =
             [(0, [\<lparr> m_velocity = 0, m_pitch = 60, m_start = 0, m_end = 1 / 2 \<rparr>])]
           \<and> out_note_count out = 1 \<and> out_skipped_count out = 0)
   \<and> working_note_step (\<lambda>f n. Some (n # f)) 1 0
        (NoteDict \<lparr> pitch = Some (Num 60), start_beat = Some (Num 0),
                    duration_beat = Some (Num 1), velocity = Some (Num (- 1 / 2)),
                    track = None, channel = None \<rparr>)
        \<lparr> midi_file = [], w_note_count = 0, w_skipped_count = 0, w_log = [] \<rparr>
       = \<lparr> midi_file = [(0, 0, 60, 0, 1, 0)], w_note_count = 1, w_skipped_count = 0,
           w_log = [] \<rparr>"
  by (simp add: run_defs working_note_step_def working_parse_note_def)

subsection \<open>The clamp of the end time\<close>

lemma map_of_append_note:
  assumes "map_of ins t = Some ns"
  shows "map_of (append_note t m ins) t = Some (ns @ [m])"
  using assms by (induction ins) (auto split: if_splits)

text \<open>
  C6.  A note that passes the validation, whose track has an instrument, and whose
  converted end time is not after its converted start time, is kept: the note appended to
  its instrument starts at the converted start time and ends 0.001 seconds later, the
  count of converted notes grows by one, the skip counter does not change, and the
  warning about the duration is printed.
\<close>

theorem end_time_clamped:
  assumes "parse_note n = Inr (p, sb, db, v, t)"
    and "map_of (instruments s) t = Some ns"
    and "fst (get_time_from_beat (sb + db) btm D) \<le> fst (get_time_from_beat sb btm D)"
  shows "map_of (instruments (note_step btm D i (NoteDict n) s)) t =
           Some (ns @ [\<lparr> m_velocity = v, m_pitch = p,
                          m_start = fst (get_time_from_beat sb btm D),
                          m_end = fst (get_time_from_beat sb btm D) + 1 / 1000 \<rparr>])
       \<and> note_count (note_step btm D i (NoteDict n) s) = Suc (note_count s)
       \<and> skipped_count (note_step btm D i (NoteDict n) s) = skipped_count s
       \<and> WarnDurationClamped i \<in> set (note_log (note_step btm D i (NoteDict n) s))"
  using assms
  by (simp add: note_step_def Let_def split_beta map_of_append_note del: get_time_from_beat.simps)

theorem end_time_clamped_witness:
  "parse_note \<lparr> pitch = Some (Num 60), start_beat = Some (Num (39 / 10)),
                 duration_beat = Some (Num (1 / 10)), velocity = None, track = None,
                 channel = None \<rparr> = Inr (60, 39 / 10, 1 / 10, 100, 0)
   \<and> fst (get_time_from_beat (39 / 10 + 1 / 10)
          (beat_time_map (build_anchor_table [ev 0 120, ev 2 100, ev 2 200, ev 4 60]))
          (tempo_map_dict (build_anchor_table [ev 0 120, ev 2 100, ev 2 200, ev 4 60])))
       \<le> fst (get_time_from_beat (39 / 10)
          (beat_time_map (build_anchor_table [ev 0 120, ev 2 100, ev 2 200, ev 4 60]))
          (tempo_map_dict (build_anchor_table [ev 0 120, ev 2 100, ev 2 200, ev 4 60])))
   \<and> map_of (instruments (note_step
          (beat_time_map (build_anchor_table [ev 0 120, ev 2 100, ev 2 200, ev 4 60]))
          (tempo_map_dict (build_anchor_table [ev 0 120, ev 2 100, ev 2 200, ev 4 60])) 0
          (NoteDict \<lparr> pitch = Some (Num 60), start_beat = Some (Num (39 / 10)),
                      duration_beat = Some (Num (1 / 10)), velocity = None, track = None,
                      channel = None \<rparr>)
          \<lparr> instruments = [(0, [])], note_count = 0, skipped_count = 0, note_log = [] \<rparr>)) 0
       = Some [\<lparr> m_velocity = 100, m_pitch = 60, m_start = 107 / 50,
                  m_end = 107 / 50 + 1 / 1000 \<rparr>]"
  using end_time_clamped [where
      n = "\<lparr> pitch = Some (Num 60), start_beat = Some (Num (39 / 10)),
                 duration_beat = Some (Num (1 / 10)), velocity = None, track = None,
                 channel = None \<rparr>"
      and p = 60 and sb = "39 / 10" and db = "1 / 10" and v = 100 and t = 0
      and s = "\<lparr> instruments = [(0, [])], note_count = 0, skipped_count = 0, note_log = [] \<rparr>"
      and ns = "[]"
      and btm = "beat_time_map (build_anchor_table [ev 0 120, ev 2 100, ev 2 200, ev 4 60])"
      and D = "tempo_map_dict (build_anchor_table [ev 0 120, ev 2 100, ev 2 200, ev 4 60])"
      and i = 0]
  by (simp add: build_anchor_table_def run_defs)

subsection \<open>Instruments and the default track\<close>

lemma create_instruments_keys:
  "map fst (fst (create_instruments ts)) = filter (\<lambda>t. 0 \<le> t) ts"
proof (induction ts)
  case Nil
  then show ?case by simp
next
  case (Cons t ts)
  obtain ins lg where c: "create_instruments ts = (ins, lg)"
    by (cases "create_instruments ts")
  show ?case using Cons by (simp add: c)
qed

lemma instrument_zero_iff:
  assumes "initial_instruments notes_data = Inr (ins, lg)"
    and "note_tracks notes_data = Inr ts"
  shows "(0 \<in> fst ` set ins) = (0 \<in> set ts \<or> list_all (\<lambda>t. t < 0) ts)"
proof -
  obtain cs cl where c: "create_instruments (sort (remdups ts)) = (cs, cl)"
    by (cases "create_instruments (sort (remdups ts))")
  have "map fst cs = filter (\<lambda>t. 0 \<le> t) (sort (remdups ts))"
    using create_instruments_keys[of "sort (remdups ts)"] by (simp add: c)
  then have "set (map fst cs) = set (filter (\<lambda>t. 0 \<le> t) (sort (remdups ts)))"
    by (rule arg_cong)
  then have keys: "fst ` set cs = {t \<in> set ts. 0 \<le> t}"
    by simp
  have run: "initial_instruments notes_data =
      (if cs = [] then Inr ([(0, [])], cl @ [InfoDefaultInstrument]) else Inr (cs, cl))"
    unfolding initial_instruments_def assms(2) by (simp add: c)
  show ?thesis
  proof (cases "cs = []")
    case True
    have "Inr (ins, lg) = (Inr ([(0, [])], cl @ [InfoDefaultInstrument])
             :: py_exc + ((int \<times> midi_note list) list \<times> diag list))"
      using run True assms(1) by simp
    then have ins: "ins = [(0, [])]" by simp
    have "{t \<in> set ts. 0 \<le> t} = {}" using keys True by simp
    then have "\<forall>t \<in> set ts. t < 0" by fastforce
    then have "list_all (\<lambda>t. t < 0) ts" by (simp add: list_all_iff)
    then show ?thesis using ins by simp
  next
    case False
    have "Inr (ins, lg) = (Inr (cs, cl) :: py_exc + ((int \<times> midi_note list) list \<times> diag list))"
      using run False assms(1) by simp
    then have ins: "ins = cs" by simp
    have "hd cs \<in> set cs" using False by simp
    then have "fst (hd cs) \<in> fst ` set cs" by (rule imageI)
    then have "fst (hd cs) \<in> {t \<in> set ts. 0 \<le> t}" unfolding keys .
    then have t: "fst (hd cs) \<in> set ts" "0 \<le> fst (hd cs)" by simp_all
    have "\<not> (\<forall>t \<in> set ts. t < 0)"
    proof
      assume "\<forall>t \<in> set ts. t < 0"
      then have "fst (hd cs) < 0" using t(1) by (rule bspec)
      then show False using t(2) by simp
    qed
    then have nl: "\<not> list_all (\<lambda>t. t < 0) ts"
      by (simp add: list_all_iff)
    have "(0 \<in> fst ` set cs) = (0 \<in> set ts)" unfolding keys by simp
    then show ?thesis using ins nl by simp
  qed
qed

text \<open>
  C9 (as amended).  A note without the key \<^verbatim>\<open>track\<close> is given track 0.  An instrument
  for track 0 exists exactly when some note carries a \<^verbatim>\<open>track\<close> key whose integer value
  is 0, or no note carries a \<^verbatim>\<open>track\<close> key with a non-negative value (in particular
  when no note carries the key).  With one note on explicit track 1 and one note without
  the key, the second note is skipped and counted and the first is converted.
\<close>

theorem track_zero_instrument:
  assumes "initial_instruments notes_data = Inr (ins, lg)"
    and "note_tracks notes_data = Inr ts"
    and "parse_note n = Inr (p, sb, db, v, t)"
    and "track n = None"
  shows "t = 0
       \<and> (0 \<in> fst ` set ins) = (0 \<in> set ts \<or> list_all (\<lambda>t. t < 0) ts)
       \<and> (case json_to_midi
          (Dict (Some (JList
             [NoteDict \<lparr> pitch = Some (Num 60), start_beat = Some (Num 0),
                     duration_beat = Some (Num 1), velocity = None, track = Some (Num 1),
                     channel = None \<rparr>,
              NoteDict \<lparr> pitch = Some (Num 62), start_beat = Some (Num 1),
                     duration_beat = Some (Num 1), velocity = None, track = None,
                     channel = None \<rparr>]))
            (Some (JList [ev 0 120])) None) of
          Inl a \<Rightarrow> False
        | Inr out \<Rightarrow>
            out_instruments out =
              [(1, [\<lparr> m_velocity = 100, m_pitch = 60, m_start = 0, m_end = 1 / 2 \<rparr>])]
            \<and> out_note_count out = 1 \<and> out_skipped_count out = 1
            \<and> WarnUnknownTrack 0 \<in> set (out_log out))"
proof -
  have "py_int (py_get (track n) 0) = Inr t"
    using parse_note_Inr[OF assms(3)] by simp
  then have t: "t = 0" using assms(4) by (simp add: py_trunc_def)
  have ex: "(case json_to_midi
          (Dict (Some (JList
             [NoteDict \<lparr> pitch = Some (Num 60), start_beat = Some (Num 0),
                     duration_beat = Some (Num 1), velocity = None, track = Some (Num 1),
                     channel = None \<rparr>,
              NoteDict \<lparr> pitch = Some (Num 62), start_beat = Some (Num 1),
                     duration_beat = Some (Num 1), velocity = None, track = None,
                     channel = None \<rparr>]))
            (Some (JList [ev 0 120])) None) of
          Inl a \<Rightarrow> False
        | Inr out \<Rightarrow>
            out_instruments out =
              [(1, [\<lparr> m_velocity = 100, m_pitch = 60, m_start = 0, m_end = 1 / 2 \<rparr>])]
            \<and> out_note_count out = 1 \<and> out_skipped_count out = 1
            \<and> WarnUnknownTrack 0 \<in> set (out_log out))"
    by (simp add: run_defs)
  show ?thesis
    using t instrument_zero_iff[OF assms(1) assms(2)] ex by simp
qed

theorem track_zero_instrument_witness:
  "initial_instruments
      [NoteDict \<lparr> pitch = Some (Num 60), start_beat = Some (Num 0),
                     duration_beat = Some (Num 1), velocity = None, track = Some (Num 1),
                     channel = None \<rparr>,
       NoteDict \<lparr> pitch = Some (Num 62), start_beat = Some (Num 1),
                     duration_beat = Some (Num 1), velocity = None, track = None,
                     channel = None \<rparr>] = Inr ([(1, [])], [InfoInstrumentCreated 1])
   \<and> note_tracks
      [NoteDict \<lparr> pitch = Some (Num 60), start_beat = Some (Num 0),
                     duration_beat = Some (Num 1), velocity = None, track = Some (Num 1),
                     channel = None \<rparr>,
       NoteDict \<lparr> pitch = Some (Num 62), start_beat = Some (Num 1),
                     duration_beat = Some (Num 1), velocity = None, track = None,
                     channel = None \<rparr>] = Inr [1]
   \<and> parse_note \<lparr> pitch = Some (Num 62), start_beat = Some (Num 1),
                     duration_beat = Some (Num 1), velocity = None, track = None,
                     channel = None \<rparr> = Inr (62, 1, 1, 100, 0)
   \<and> track \<lparr> pitch = Some (Num 62), start_beat = Some (Num 1),
                     duration_beat = Some (Num 1), velocity = None, track = None,
                     channel = None \<rparr> = None
   \<and> (0 \<in> fst ` set [(1 :: int, [] :: midi_note list)]) =
        (0 \<in> set [1 :: int] \<or> list_all (\<lambda>t. t < 0) [1 :: int])"
  using track_zero_instrument [where
      notes_data = "[NoteDict \<lparr> pitch = Some (Num 60), start_beat = Some (Num 0),
                     duration_beat = Some (Num 1), velocity = None, track = Some (Num 1),
                     channel = None \<rparr>,
       NoteDict \<lparr> pitch = Some (Num 62), start_beat = Some (Num 1),
                     duration_beat = Some (Num 1), velocity = None, track = None,
                     channel = None \<rparr>]"
      and ins = "[(1, [])]" and lg = "[InfoInstrumentCreated 1]" and ts = "[1]"
      and n = "\<lparr> pitch = Some (Num 62), start_beat = Some (Num 1),
                     duration_beat = Some (Num 1), velocity = None, track = None,
                     channel = None \<rparr>"
      and p = 62 and sb = 1 and db = 1 and v = 100 and t = 0]
  by (simp add: initial_instruments_def parse_note_def py_trunc_def)

text \<open>
  C9 as stated says that track 0 gets an instrument only if a note names track 0 or no
  note carries the key.  Here the first note carries the key with the value -1, no note
  names track 0, and the instrument for track 0 is created all the same: line 155 skips
  the negative track, and line 165 then finds no instrument.
\<close>

theorem track_zero_instrument_counterexample:
  "note_tracks
      [NoteDict \<lparr> pitch = Some (Num 60), start_beat = Some (Num 0),
                  duration_beat = Some (Num 1), velocity = None, track = Some (Num (- 1)),
                  channel = None \<rparr>,
       NoteDict \<lparr> pitch = Some (Num 62), start_beat = Some (Num 1),
                  duration_beat = Some (Num 1), velocity = None, track = None,
                  channel = None \<rparr>] = Inr [- 1]
   \<and> initial_instruments
      [NoteDict \<lparr> pitch = Some (Num 60), start_beat = Some (Num 0),
                  duration_beat = Some (Num 1), velocity = None, track = Some (Num (- 1)),
                  channel = None \<rparr>,
       NoteDict \<lparr> pitch = Some (Num 62), start_beat = Some (Num 1),
                  duration_beat = Some (Num 1), velocity = None, track = None,
                  channel = None \<rparr>]
       = Inr ([(0, [])], [WarnNegativeTrack (- 1), InfoDefaultInstrument])"
  by (simp add: initial_instruments_def py_trunc_def)

subsection \<open>Durations of the notes read from a MIDI file\<close>

lemma map_exc_ticks:
  assumes "resolution \<noteq> 0"
  shows "map_exc (convert_note ttt resolution k) ns =
           Inr (map (\<lambda>n. \<lparr> j_pitch = pm_pitch n,
                  j_start_beat = real_of_int (ttt (pm_start n)) / real_of_int resolution,
                  j_duration_beat =
                    (if real_of_int (ttt (pm_end n)) / real_of_int resolution
                          - real_of_int (ttt (pm_start n)) / real_of_int resolution \<le> 0
                     then 1 / real_of_int resolution
                     else real_of_int (ttt (pm_end n)) / real_of_int resolution
                          - real_of_int (ttt (pm_start n)) / real_of_int resolution),
                  j_velocity = pm_velocity n, j_track = k \<rparr>) ns)"
  using assms by (induction ns) (simp_all add: convert_note_def ticks_to_beats_def)

lemma convert_instruments_ok:
  assumes "0 < resolution"
  shows "\<exists>out. convert_instruments ttt resolution k inss = Inr out
           \<and> length out = length (concat inss)
           \<and> list_all (\<lambda>n. 0 < j_duration_beat n) out"
proof (induction inss arbitrary: k)
  case Nil
  then show ?case by simp
next
  case (Cons ins inss)
  obtain out where out: "convert_instruments ttt resolution (Suc k) inss = Inr out"
    "length out = length (concat inss)" "list_all (\<lambda>n. 0 < j_duration_beat n) out"
    using Cons.IH by blast
  have r: "resolution \<noteq> 0" using assms by simp
  have pos: "0 < 1 / real_of_int resolution" using assms by simp
  have one: "list_all (\<lambda>n. 0 < j_duration_beat n)
     (map (\<lambda>n. \<lparr> j_pitch = pm_pitch n,
                  j_start_beat = real_of_int (ttt (pm_start n)) / real_of_int resolution,
                  j_duration_beat =
                    (if real_of_int (ttt (pm_end n)) / real_of_int resolution
                          - real_of_int (ttt (pm_start n)) / real_of_int resolution \<le> 0
                     then 1 / real_of_int resolution
                     else real_of_int (ttt (pm_end n)) / real_of_int resolution
                          - real_of_int (ttt (pm_start n)) / real_of_int resolution),
                  j_velocity = pm_velocity n, j_track = k \<rparr>) ins)"
    using pos by (simp add: list_all_iff not_le)
  show ?case
    using out one by (simp add: map_exc_ticks[OF r])
qed

text \<open>
  C10.  For a positive resolution, \<^verbatim>\<open>midi_to_json\<close> emits every note of every instrument
  (none is dropped), each with a strictly positive \<^verbatim>\<open>duration_beat\<close>; a note whose end
  beat minus start beat is at most zero gets the duration of one tick, \<open>1 / resolution\<close>
  beats.
\<close>

theorem midi_notes_positive_duration:
  assumes "0 < resolution"
  shows "(\<exists>out. midi_notes ttt resolution pm_instruments = Inr out
            \<and> length out = length (concat pm_instruments)
            \<and> list_all (\<lambda>n. 0 < j_duration_beat n) out)
       \<and> (\<exists>sb eb. ticks_to_beats (ttt (pm_start n)) resolution = Inr sb
            \<and> ticks_to_beats (ttt (pm_end n)) resolution = Inr eb
            \<and> convert_note ttt resolution k n =
                Inr \<lparr> j_pitch = pm_pitch n, j_start_beat = sb,
                      j_duration_beat = (if eb - sb \<le> 0 then 1 / real_of_int resolution else eb - sb),
                      j_velocity = pm_velocity n, j_track = k \<rparr>)"
proof -
  obtain out where out: "convert_instruments ttt resolution 0 pm_instruments = Inr out"
    "length out = length (concat pm_instruments)" "list_all (\<lambda>n. 0 < j_duration_beat n) out"
    using convert_instruments_ok[OF assms] by blast
  have "midi_notes ttt resolution pm_instruments = Inr (sort_key j_start_beat out)"
    by (simp add: midi_notes_def out)
  moreover have "list_all (\<lambda>n. 0 < j_duration_beat n) (sort_key j_start_beat out)"
    using out(3) by (simp add: list_all_iff)
  ultimately have a: "\<exists>out. midi_notes ttt resolution pm_instruments = Inr out
            \<and> length out = length (concat pm_instruments)
            \<and> list_all (\<lambda>n. 0 < j_duration_beat n) out"
    using out(2) by simp
  have r: "resolution \<noteq> 0" using assms by simp
  have b: "\<exists>sb eb. ticks_to_beats (ttt (pm_start n)) resolution = Inr sb
            \<and> ticks_to_beats (ttt (pm_end n)) resolution = Inr eb
            \<and> convert_note ttt resolution k n =
                Inr \<lparr> j_pitch = pm_pitch n, j_start_beat = sb,
                      j_duration_beat = (if eb - sb \<le> 0 then 1 / real_of_int resolution else eb - sb),
                      j_velocity = pm_velocity n, j_track = k \<rparr>"
    using r by (simp add: convert_note_def ticks_to_beats_def)
  show ?thesis using a b by blast
qed

theorem midi_notes_positive_duration_witness:
  "(0 :: int) < 480
   \<and> midi_notes (\<lambda>t. \<lfloor>t * 960\<rfloor>) 480
        [[\<lparr> pm_pitch = 60, pm_velocity = 100, pm_start = 1, pm_end = 1 \<rparr>]] =
      Inr [\<lparr> j_pitch = 60, j_start_beat = 2, j_duration_beat = 1 / 480,
              j_velocity = 100, j_track = 0 \<rparr>]"
  using midi_notes_positive_duration [where resolution = 480 and ttt = "\<lambda>t. \<lfloor>t * 960\<rfloor>"
      and pm_instruments = "[[\<lparr> pm_pitch = 60, pm_velocity = 100, pm_start = 1, pm_end = 1 \<rparr>]]"
      and n = "\<lparr> pm_pitch = 60, pm_velocity = 100, pm_start = 1, pm_end = 1 \<rparr>" and k = 0]
  by (simp add: midi_notes_def convert_note_def ticks_to_beats_def)

subsection \<open>The event at beat 0\<close>

lemma tempo_step_dict_keep:
  assumes "sort_beat e \<noteq> Inr k"
  shows "tempo_map_dict (tempo_step i e s) k = tempo_map_dict s k"
proof (cases e)
  case TempoNotDict
  then show ?thesis by (simp add: tempo_step_def)
next
  case (TempoEvent b m)
  show ?thesis
  proof (cases "py_float (py_get b 0)")
    case (Inl x)
    then show ?thesis using TempoEvent by (simp add: tempo_step_def)
  next
    case (Inr eb)
    then have ne: "eb \<noteq> k" using assms TempoEvent by auto
    show ?thesis
    proof (cases "py_float (py_get m 120)")
      case (Inl x)
      then show ?thesis using TempoEvent Inr by (simp add: tempo_step_def)
    next
      case bpm: (Inr em)
      show ?thesis using TempoEvent Inr bpm ne by (simp add: tempo_step_def Let_def)
    qed
  qed
qed

lemma tempo_loop_dict_keep:
  assumes "list_all (\<lambda>e. sort_beat e \<noteq> Inr k) es"
  shows "tempo_map_dict (tempo_loop i es s) k = tempo_map_dict s k"
  using assms by (induction es arbitrary: i s) (simp_all add: tempo_step_dict_keep)

lemma tempo_step_not_admitted:
  assumes "admit e = None" and "last_beat s = 0"
  shows "beat_time_map (tempo_step i e s) = beat_time_map s
       \<and> tempo_map_dict (tempo_step i e s) = tempo_map_dict s
       \<and> current_time_sec (tempo_step i e s) = current_time_sec s
       \<and> last_beat (tempo_step i e s) = 0
       \<and> last_bpm (tempo_step i e s) = last_bpm s"
proof (cases e)
  case TempoNotDict
  then show ?thesis using assms by (simp add: tempo_step_def)
next
  case (TempoEvent b m)
  show ?thesis
  proof (cases "py_float (py_get b 0)")
    case (Inl x)
    then show ?thesis using TempoEvent assms by (simp add: tempo_step_def)
  next
    case (Inr eb)
    show ?thesis
    proof (cases "py_float (py_get m 120)")
      case (Inl x)
      then show ?thesis using TempoEvent Inr assms by (simp add: tempo_step_def)
    next
      case bpm: (Inr em)
      then have "eb < 0" using assms(1) TempoEvent Inr by (simp split: if_splits)
      then show ?thesis using TempoEvent Inr bpm assms by (simp add: tempo_step_def)
    qed
  qed
qed

lemma admit_Some:
  assumes "admit e = Some (b, m)"
  shows "sort_beat e = Inr b \<and> 0 \<le> b"
  using assms by (cases e) (auto split: sum.splits if_splits)

lemma tempo_step_admitted:
  assumes "admit e = Some (b, m)" and "0 < b" and "0 < i"
    and "last_beat s = 0" and "current_time_sec s = 0" and "last_bpm s = 120"
  shows "beat_time_map (tempo_step i e s) = beat_time_map s @ [(b, b * 60 / 120)]
       \<and> tempo_map_dict (tempo_step i e s) 0 = tempo_map_dict s 0"
proof (cases e)
  case TempoNotDict
  then show ?thesis using assms by simp
next
  case (TempoEvent eb em)
  have "py_float (py_get eb 0) = Inr b" "py_float (py_get em 120) = Inr m"
    using assms(1) TempoEvent by (auto split: sum.splits if_splits)
  then show ?thesis
    using TempoEvent assms(2-) by (simp add: tempo_step_def Let_def)
qed

lemma tempo_loop_appends:
  "\<exists>others. beat_time_map (tempo_loop i es s) = beat_time_map s @ others"
proof (induction es arbitrary: i s)
  case Nil
  then show ?case by simp
next
  case (Cons e es)
  have "\<exists>one. beat_time_map (tempo_step i e s) = beat_time_map s @ one"
    by (cases e) (auto simp: tempo_step_def Let_def split: sum.splits)
  then obtain one where one: "beat_time_map (tempo_step i e s) = beat_time_map s @ one" by blast
  obtain others where "beat_time_map (tempo_loop (Suc i) es (tempo_step i e s))
      = beat_time_map (tempo_step i e s) @ others"
    using Cons.IH by blast
  then show ?case by (simp add: one)
qed

lemma tempo_loop_first_admitted:
  assumes "first_admitted es = Some (b, m)" and "0 < b" and "0 < i"
    and "last_beat s = 0" and "current_time_sec s = 0" and "last_bpm s = 120"
    and "sorted (map beat_key es)"
  shows "\<exists>others. beat_time_map (tempo_loop i es s) = beat_time_map s @ (b, b * 60 / 120) # others"
    and "tempo_map_dict (tempo_loop i es s) 0 = tempo_map_dict s 0"
  using assms
proof (induction es arbitrary: i s)
  case Nil
  { case 1 then show ?case by simp }
  { case 2 then show ?case by simp }
next
  case (Cons e es)
  { case 1
    show ?case
    proof (cases "admit e")
      case None
      note st = tempo_step_not_admitted[OF None "1.prems"(4), of i]
      have fa: "first_admitted es = Some (b, m)" using "1.prems"(1) None by simp
      have "\<exists>others. beat_time_map (tempo_loop (Suc i) es (tempo_step i e s))
               = beat_time_map (tempo_step i e s) @ (b, b * 60 / 120) # others"
        using "1.prems" st fa by (intro Cons.IH(1)) simp_all
      then show ?thesis using st by simp
    next
      case (Some p)
      then have ad: "admit e = Some (b, m)" using "1.prems"(1) by simp
      note st = tempo_step_admitted[OF ad "1.prems"(2) "1.prems"(3) "1.prems"(4) "1.prems"(5) "1.prems"(6)]
      obtain others where "beat_time_map (tempo_loop (Suc i) es (tempo_step i e s))
          = beat_time_map (tempo_step i e s) @ others"
        using tempo_loop_appends by blast
      then show ?thesis using st by simp
    qed }
  { case 2
    show ?case
    proof (cases "admit e")
      case None
      note st = tempo_step_not_admitted[OF None "2.prems"(4), of i]
      have fa: "first_admitted es = Some (b, m)" using "2.prems"(1) None by simp
      have "tempo_map_dict (tempo_loop (Suc i) es (tempo_step i e s)) 0
               = tempo_map_dict (tempo_step i e s) 0"
        using "2.prems" st fa by (intro Cons.IH(2)) simp_all
      then show ?thesis using st by simp
    next
      case (Some p)
      then have ad: "admit e = Some (b, m)" using "2.prems"(1) by simp
      note st = tempo_step_admitted[OF ad "2.prems"(2) "2.prems"(3) "2.prems"(4) "2.prems"(5) "2.prems"(6)]
      have key: "beat_key e = b" using admit_Some[OF ad] by simp
      have "\<forall>x \<in> set es. b \<le> beat_key x" using "2.prems"(7) key by auto
      then have keep: "list_all (\<lambda>x. sort_beat x \<noteq> Inr 0) es"
        using "2.prems"(2) by (auto simp: list_all_iff)
      have "tempo_map_dict (tempo_loop (Suc i) es (tempo_step i e s)) 0
              = tempo_map_dict (tempo_step i e s) 0"
        using tempo_loop_dict_keep[OF keep] .
      then show ?thesis using st by simp
    qed }
qed


lemma prepare_tempo_map_Inr:
  assumes "prepare_tempo_map tempo_map = Inr (prepared, lg)"
  shows "\<exists>e es. sort_key beat_key tempo_map = e # es
           \<and> (if 0 < beat_key e
                then prepared = ev 0 120 # e # es \<and> lg = [WarnInsertBeat0 120]
                else prepared = e # es \<and> lg = [])"
proof (cases "sort_key beat_key tempo_map")
  case Nil
  then show ?thesis
    using assms by (simp add: prepare_tempo_map_def split: if_splits)
next
  case (Cons e es)
  then show ?thesis
    using assms by (auto simp add: prepare_tempo_map_def ev_def split: if_splits)
qed

lemma tempo_first_default:
  "tempo_step 0 (ev 0 120) tempo_init =
     \<lparr> beat_time_map = [(0, 0), (0, 0)], tempo_map_dict = [0 \<mapsto> 120],
       current_time_sec = 0, last_beat = 0, last_bpm = 120, tempo_log = [] \<rparr>"
  by (simp add: tempo_step_def tempo_init_def ev_def Let_def)

lemma first_segment_time:
  assumes "0 \<le> x" and "x < b"
    and "(case D 0 of None \<Rightarrow> 120 | Some c \<Rightarrow> c) = (120 :: real)"
  shows "fst (get_time_from_beat x ((0, 0) # (b, t) # others) D) = x * 60 / 120"
    and "fst (get_time_from_beat x ((0, 0) # (0, 0) # (b, t) # others) D) = x * 60 / 120"
  using assms by simp_all

text \<open>
  C4 (as amended).  For every tempo map that the preparation accepts and whose first
  admitted event has a positive beat: when the first event after sorting has a positive
  beat, \<^verbatim>\<open>json_to_midi.py\<close> puts the event 120 BPM at beat 0 in front of the map, and 120 is
  the tempo stored for beat 0; when skipped events come first, nothing is inserted.  In
  both cases the anchor table starts with beat 0 at time 0, the tempo looked up at beat 0
  is 120, the first admitted event is reached at 120 BPM, and every beat from 0 up to it
  is converted at 120 BPM.  In \<^verbatim>\<open>midi_to_json.py\<close> a tempo map without events becomes the
  single event 120 BPM at beat 0.
\<close>

theorem beat_zero_synthesized:
  assumes "prepare_tempo_map tempo_map = Inr (prepared, lg)"
    and "first_admitted (sort_key beat_key tempo_map) = Some (b, m)"
    and "0 < b"
  shows "(0 < beat_key (hd (sort_key beat_key tempo_map)) \<longrightarrow>
            prepared = ev 0 120 # sort_key beat_key tempo_map \<and> lg = [WarnInsertBeat0 120]
            \<and> tempo_map_dict (build_anchor_table prepared) 0 = Some 120)
       \<and> (beat_key (hd (sort_key beat_key tempo_map)) \<le> 0 \<longrightarrow>
            prepared = sort_key beat_key tempo_map \<and> lg = [])
       \<and> hd (beat_time_map (build_anchor_table prepared)) = (0, 0)
       \<and> (case tempo_map_dict (build_anchor_table prepared) 0 of None \<Rightarrow> 120 | Some c \<Rightarrow> c) = 120
       \<and> (b, b * 60 / 120) \<in> set (beat_time_map (build_anchor_table prepared))
       \<and> (0 \<le> x \<and> x < b \<longrightarrow> beat_to_time prepared x = x * 60 / 120)
       \<and> midi_tempo_map ttt resolution [] change_bpm = [(0, 120)]"
proof -
  obtain e es where srt: "sort_key beat_key tempo_map = e # es"
    and pr: "if 0 < beat_key e
             then prepared = ev 0 120 # e # es \<and> lg = [WarnInsertBeat0 120]
             else prepared = e # es \<and> lg = []"
    using prepare_tempo_map_Inr[OF assms(1)] by blast
  have sorted_all: "sorted (map beat_key (e # es))"
    using sorted_sort_key[of beat_key tempo_map] by (simp only: srt)
  have fa: "first_admitted (e # es) = Some (b, m)" using assms(2) by (simp only: srt)
  have midi: "midi_tempo_map ttt resolution [] change_bpm = [(0, 120)]"
    by (simp add: midi_tempo_map_def)
  show ?thesis
  proof (cases "0 < beat_key e")
    case True
    then have p: "prepared = ev 0 120 # e # es" "lg = [WarnInsertBeat0 120]" using pr by simp_all
    let ?s = "tempo_step 0 (ev 0 120) tempo_init"
    have b: "build_anchor_table prepared = tempo_loop (Suc 0) (e # es) ?s"
      by (simp add: build_anchor_table_def p)
    obtain others where tab: "beat_time_map (tempo_loop (Suc 0) (e # es) ?s)
        = beat_time_map ?s @ (b, b * 60 / 120) # others"
      using tempo_loop_first_admitted(1)[OF fa assms(3), of "Suc 0" ?s] sorted_all
      by (auto simp add: tempo_first_default)
    have dict: "tempo_map_dict (tempo_loop (Suc 0) (e # es) ?s) 0 = tempo_map_dict ?s 0"
      using tempo_loop_first_admitted(2)[OF fa assms(3), of "Suc 0" ?s] sorted_all
      by (simp add: tempo_first_default)
    have tab': "beat_time_map (build_anchor_table prepared) = (0, 0) # (0, 0) # (b, b * 60 / 120) # others"
      unfolding b tab by (simp add: tempo_first_default)
    have dict': "tempo_map_dict (build_anchor_table prepared) 0 = Some 120"
      unfolding b dict by (simp add: tempo_first_default)
    have time: "0 \<le> x \<and> x < b \<longrightarrow> beat_to_time prepared x = x * 60 / 120"
      unfolding beat_to_time_def Let_def tab'
      using first_segment_time(2)[of x b "tempo_map_dict (build_anchor_table prepared)"]
      by (simp add: dict')
    have c1: "0 < beat_key (hd (sort_key beat_key tempo_map)) \<longrightarrow>
            prepared = ev 0 120 # sort_key beat_key tempo_map \<and> lg = [WarnInsertBeat0 120]
            \<and> tempo_map_dict (build_anchor_table prepared) 0 = Some 120"
      using p dict' by (simp only: srt) simp
    have c2: "beat_key (hd (sort_key beat_key tempo_map)) \<le> 0 \<longrightarrow>
            prepared = sort_key beat_key tempo_map \<and> lg = []"
      using True by (simp only: srt list.sel) simp
    have c3: "hd (beat_time_map (build_anchor_table prepared)) = (0, 0)"
      by (simp only: tab' list.sel)
    have c4: "(case tempo_map_dict (build_anchor_table prepared) 0 of None \<Rightarrow> 120 | Some c \<Rightarrow> c) = 120"
      by (simp only: dict' option.case)
    have c5: "(b, b * 60 / 120) \<in> set (beat_time_map (build_anchor_table prepared))"
      by (simp only: tab') simp
    show ?thesis
      using c1 c2 c3 c4 c5 time midi by blast
  next
    case False
    then have p: "prepared = e # es" "lg = []" using pr by simp_all
    have "admit e = None"
    proof (cases "admit e")
      case None
      then show ?thesis .
    next
      case (Some q)
      then have "admit e = Some (b, m)" using fa by simp
      then have "beat_key e = b" using admit_Some[of e b m] by simp
      then show ?thesis using False assms(3) by simp
    qed
    then have fa': "first_admitted es = Some (b, m)" using fa by simp
    let ?s = "tempo_step 0 e tempo_init"
    have st: "beat_time_map ?s = [(0, 0)]" "tempo_map_dict ?s 0 = None"
      "current_time_sec ?s = 0" "last_beat ?s = 0" "last_bpm ?s = 120"
      using tempo_step_not_admitted[OF \<open>admit e = None\<close>, of tempo_init 0]
      by (simp_all add: tempo_init_def)
    have b: "build_anchor_table prepared = tempo_loop (Suc 0) es ?s"
      by (simp add: build_anchor_table_def p)
    have sorted_es: "sorted (map beat_key es)" using sorted_all by simp
    obtain others where tab: "beat_time_map (tempo_loop (Suc 0) es ?s)
        = beat_time_map ?s @ (b, b * 60 / 120) # others"
      using tempo_loop_first_admitted(1)[OF fa' assms(3) _ st(4) st(3) st(5) sorted_es, of "Suc 0"]
      by auto
    have dict: "tempo_map_dict (tempo_loop (Suc 0) es ?s) 0 = tempo_map_dict ?s 0"
      using tempo_loop_first_admitted(2)[OF fa' assms(3) _ st(4) st(3) st(5) sorted_es, of "Suc 0"]
      by simp
    have tab': "beat_time_map (build_anchor_table prepared) = (0, 0) # (b, b * 60 / 120) # others"
      unfolding b tab by (simp add: st)
    have dict': "tempo_map_dict (build_anchor_table prepared) 0 = None"
      unfolding b dict by (simp add: st)
    have time: "0 \<le> x \<and> x < b \<longrightarrow> beat_to_time prepared x = x * 60 / 120"
      unfolding beat_to_time_def Let_def tab'
      using first_segment_time(1)[of x b "tempo_map_dict (build_anchor_table prepared)"]
      by (simp add: dict')
    have c1: "0 < beat_key (hd (sort_key beat_key tempo_map)) \<longrightarrow>
            prepared = ev 0 120 # sort_key beat_key tempo_map \<and> lg = [WarnInsertBeat0 120]
            \<and> tempo_map_dict (build_anchor_table prepared) 0 = Some 120"
      using False by (simp only: srt list.sel) simp
    have c2: "beat_key (hd (sort_key beat_key tempo_map)) \<le> 0 \<longrightarrow>
            prepared = sort_key beat_key tempo_map \<and> lg = []"
      using p by (simp only: srt) simp
    have c3: "hd (beat_time_map (build_anchor_table prepared)) = (0, 0)"
      by (simp only: tab' list.sel)
    have c4: "(case tempo_map_dict (build_anchor_table prepared) 0 of None \<Rightarrow> 120 | Some c \<Rightarrow> c) = 120"
      by (simp only: dict' option.case)
    have c5: "(b, b * 60 / 120) \<in> set (beat_time_map (build_anchor_table prepared))"
      by (simp only: tab') simp
    show ?thesis
      using c1 c2 c3 c4 c5 time midi by blast
  qed
qed

theorem beat_zero_synthesized_witness:
  "prepare_tempo_map [ev 4 60, ev 2 100] =
       Inr ([ev 0 120, ev 2 100, ev 4 60], [WarnInsertBeat0 120])
   \<and> first_admitted (sort_key beat_key [ev 4 60, ev 2 100]) = Some (2, 100)
   \<and> (0 :: real) < 2
   \<and> 0 < beat_key (hd (sort_key beat_key [ev 4 60, ev 2 100]))
   \<and> (0 :: real) \<le> 1 \<and> (1 :: real) < 2
   \<and> tempo_map_dict (build_anchor_table [ev 0 120, ev 2 100, ev 4 60]) 0 = Some 120
   \<and> hd (beat_time_map (build_anchor_table [ev 0 120, ev 2 100, ev 4 60])) = (0, 0)
   \<and> beat_to_time [ev 0 120, ev 2 100, ev 4 60] 1 = 1 / 2"
  using beat_zero_synthesized [where tempo_map = "[ev 4 60, ev 2 100]"
      and prepared = "[ev 0 120, ev 2 100, ev 4 60]" and lg = "[WarnInsertBeat0 120]"
      and b = 2 and m = 100 and x = 1]
  by (simp add: prepare_tempo_map_def ev_def)

text \<open>
  C4 as stated has an event 120 BPM at beat 0 synthesized in front of every tempo map whose
  first admitted event has a positive beat, so that the map starts at beat 0.  Line 95
  looks at the first event after sorting only: with an event at beat -1 (which the loop
  skips) before the event at beat 3, nothing is inserted, the map still starts at beat
  -1, and no tempo is stored for beat 0.
\<close>

theorem beat_zero_synthesized_counterexample:
  "first_admitted (sort_key beat_key [ev (- 1) 100, ev 3 60]) = Some (3, 60)
   \<and> (0 :: real) < 3
   \<and> prepare_tempo_map [ev (- 1) 100, ev 3 60] = Inr ([ev (- 1) 100, ev 3 60], [])
   \<and> beat_time_map (build_anchor_table [ev (- 1) 100, ev 3 60]) = [(0, 0), (3, 3 / 2)]
   \<and> tempo_map_dict (build_anchor_table [ev (- 1) 100, ev 3 60]) 0 = None"
  by (simp add: prepare_tempo_map_def build_anchor_table_def tempo_step_def tempo_init_def
      ev_def Let_def)

subsection \<open>An empty tempo map\<close>

text \<open>
  C5 (as amended).  With an empty tempo map, \<^verbatim>\<open>json_to_midi_WORKING.py\<close> prints the error
  and returns before it creates any output.  \<^verbatim>\<open>json_to_midi.py\<close> prints the error,
  replaces the map by the single event 120 BPM at beat 0 with a warning, and goes on: the
  run is the run on that default map, with the two messages in front of its log.
\<close>

theorem empty_tempo_map:
  "working_extract (Dict (Some (JList notes_data)) (Some (JList [])) r)
      = Inl (Returned ErrTempoMapEmpty)
   \<and> json_to_midi (Dict (Some (JList notes_data)) (Some (JList [])) r) =
       (case json_to_midi (Dict (Some (JList notes_data)) (Some (JList [ev 0 120])) r) of
          Inl a \<Rightarrow> Inl a
        | Inr out \<Rightarrow>
            Inr (out\<lparr> out_log := [ErrTempoMapEmpty, WarnDefaultTempoAdded] @ out_log out \<rparr>))"
proof -
  have w: "working_extract (Dict (Some (JList notes_data)) (Some (JList [])) r)
      = Inl (Returned ErrTempoMapEmpty)"
    by (simp add: working_extract_def)
  have p: "prepare_tempo_map [ev 0 120] = Inr ([ev 0 120], [])"
    by (simp add: prepare_tempo_map_def ev_def)
  have j: "json_to_midi (Dict (Some (JList notes_data)) (Some (JList [])) r) =
       (case json_to_midi (Dict (Some (JList notes_data)) (Some (JList [ev 0 120])) r) of
          Inl a \<Rightarrow> Inl a
        | Inr out \<Rightarrow>
            Inr (out\<lparr> out_log := [ErrTempoMapEmpty, WarnDefaultTempoAdded] @ out_log out \<rparr>))"
  proof (cases "initial_instruments notes_data")
    case (Inl exc)
    then show ?thesis
      by (simp add: json_to_midi_def p[unfolded ev_def] ev_def)
  next
    case (Inr r)
    obtain ins lg where r: "r = (ins, lg)" by (cases r)
    show ?thesis
      by (simp add: json_to_midi_def p[unfolded ev_def] ev_def Inr r Let_def split_beta)
  qed
  show ?thesis using w j by simp
qed

text \<open>
  C5 as stated makes every run on an empty tempo map fail without output.  The run of
  \<^verbatim>\<open>json_to_midi.py\<close> below has an empty tempo map and hands one instrument with the
  converted note to the writer.
\<close>

theorem empty_tempo_map_counterexample:
  "(case json_to_midi
      (Dict (Some (JList
         [NoteDict \<lparr> pitch = Some (Num 60), start_beat = Some (Num 0),
                     duration_beat = Some (Num 1), velocity = None, track = None,
                     channel = None \<rparr>]))
        (Some (JList [])) None) of
      Inl a \<Rightarrow> False
    | Inr out \<Rightarrow>
        out_instruments out =
          [(0, [\<lparr> m_velocity = 100, m_pitch = 60, m_start = 0, m_end = 1 / 2 \<rparr>])]
        \<and> out_note_count out = 1
        \<and> ErrTempoMapEmpty \<in> set (out_log out)
        \<and> WarnDefaultTempoAdded \<in> set (out_log out))"
  by (simp add: run_defs)

end
